theory Spec2Isabelle
  imports Complex_Main "HOL-Library.Multiset"
begin

section \<open>Data model\<close>

text \<open>
  The analytics service (\<^verbatim>\<open>backend/app/services/stats_service.py\<close>) reads one MongoDB
  collection of chat messages.  A document of that collection, as the bot writes it
  (\<^verbatim>\<open>TwitchBot.event_message\<close>), is modelled by the record \<open>msg\<close>; the collection is
  the list of its documents in the store's natural (insertion) order.

  Instants are Python \<^verbatim>\<open>datetime\<close> values: an integer number of microseconds since the
  epoch.  A \<^verbatim>\<open>timedelta\<close> is an integer number of microseconds as well.  Python's \<^verbatim>\<open>int\<close>
  is \<open>int\<close>; an hour of the day and a loop index from \<^verbatim>\<open>range(n)\<close> is a \<open>nat\<close>.
  Python's \<^verbatim>\<open>float\<close> is an IEEE 754 binary64 number; it is modelled by its value, a \<open>real\<close>,
  and every floating-point operation of the source rounds its exact result with \<open>fl\<close>
  (section ``Floating-point numbers'').  A character is a code point below 256.
\<close>

type_synonym instant = int

record msg =
  username :: string
  display_name :: string
  message :: string
  timestamp :: instant
  hour :: nat

type_synonym store = "msg list"

definition timedelta_seconds :: "int \<Rightarrow> int" where
  "timedelta_seconds n = n * 1000000"

definition timedelta_hours :: "int \<Rightarrow> int" where
  "timedelta_hours n = timedelta_seconds (3600 * n)"

definition timedelta_days :: "int \<Rightarrow> int" where
  "timedelta_days n = timedelta_seconds (86400 * n)"

definition timedelta_weeks :: "int \<Rightarrow> int" where
  "timedelta_weeks n = timedelta_days (7 * n)"

text \<open>The limits of the queries (\<^verbatim>\<open>MAX_USERS_QUERY\<close>, \<^verbatim>\<open>MAX_MESSAGES_QUERY\<close>).\<close>

definition MAX_USERS_QUERY :: nat where
  "MAX_USERS_QUERY = 1000"

definition MAX_MESSAGES_QUERY :: nat where
  "MAX_MESSAGES_QUERY = 10000"

text \<open>
  \<^verbatim>\<open>str.lower()\<close>, on the ASCII letters (the router admits user names over
  \<^verbatim>\<open>[a-zA-Z0-9_]\<close> only).
\<close>

definition lower_char :: "char \<Rightarrow> char" where
  "lower_char c =
     (case map_of (zip ''ABCDEFGHIJKLMNOPQRSTUVWXYZ'' ''abcdefghijklmnopqrstuvwxyz'') c of
        Some l \<Rightarrow> l
      | None \<Rightarrow> c)"

definition lower :: "string \<Rightarrow> string" where
  "lower s = map lower_char s"

section \<open>TimeWindow: \<^verbatim>\<open>get_date_filter\<close>\<close>

text \<open>
  The function returns a query fragment: the empty dictionary \<^verbatim>\<open>{}\<close> (\<open>NoFilter\<close>) or
  \<^verbatim>\<open>{"timestamp": {"$gte": start}}\<close> (\<open>TimestampGte start\<close>).  It has no \<^verbatim>\<open>raise\<close>; its
  last branch, \<^verbatim>\<open>else: return {}\<close>, takes every tag that is not day, week or month.
\<close>

datatype date_filter = NoFilter | TimestampGte instant

definition get_date_filter :: "instant \<Rightarrow> string \<Rightarrow> date_filter" where
  "get_date_filter now period =
     (if period = ''day'' then TimestampGte (now - timedelta_days 1)
      else if period = ''week'' then TimestampGte (now - timedelta_weeks 1)
      else if period = ''month'' then TimestampGte (now - timedelta_days 30)
      else NoFilter)"

text \<open>A document passes the \<^verbatim>\<open>$match\<close> stage of a date filter.\<close>

fun in_window :: "date_filter \<Rightarrow> msg \<Rightarrow> bool" where
  "in_window NoFilter m = True"
| "in_window (TimestampGte start) m = (start \<le> timestamp m)"

section \<open>Peak hours: \<^verbatim>\<open>get_peak_hours\<close>\<close>

record HourlyActivity =
  hour_of :: nat
  count_of :: int

datatype py_error = IndexError

text \<open>\<^verbatim>\<open>sum(counts[(start + i) % 24] for i in range(3))\<close>\<close>

definition window_sum :: "int list \<Rightarrow> nat \<Rightarrow> int" where
  "window_sum counts start = sum_list (map (\<lambda>i. counts ! ((start + i) mod 24)) [0..<3])"

text \<open>One iteration of the loop over \<^verbatim>\<open>start\<close>; the state is \<open>(best_sum, best_start)\<close>.\<close>

definition peak_step :: "int list \<Rightarrow> int \<times> nat \<Rightarrow> nat \<Rightarrow> int \<times> nat" where
  "peak_step counts st start =
     (if window_sum counts start > fst st then (window_sum counts start, start) else st)"

text \<open>
  The loop reads \<^verbatim>\<open>counts[23]\<close> (at \<^verbatim>\<open>start = 21\<close> at the latest), so a non-empty input of
  fewer than 24 entries raises \<^verbatim>\<open>IndexError\<close>; entries beyond the 24th are never read.
\<close>

definition get_peak_hours :: "HourlyActivity list \<Rightarrow> py_error + nat list" where
  "get_peak_hours hourly_activity =
     (if hourly_activity = [] then Inr []
      else
        let counts = map count_of hourly_activity in
        if length counts < 24 then Inl IndexError
        else
          let best = foldl (peak_step counts) (0, 0) [0..<24] in
          if fst best = 0 then Inr []
          else Inr (map (\<lambda>i. (snd best + i) mod 24) [0..<3]))"

text \<open>
  The specification's measure of a window: the count of the start hour plus the counts of
  the next two hours, the hour after 23 being 0; and the greatest such sum over the 24
  start hours.
\<close>

definition three_hour_sum :: "int list \<Rightarrow> nat \<Rightarrow> int" where
  "three_hour_sum counts s = counts ! s + counts ! ((s + 1) mod 24) + counts ! ((s + 2) mod 24)"

definition max_three_hour_sum :: "int list \<Rightarrow> int" where
  "max_three_hour_sum counts = Max (three_hour_sum counts ` {0..<24})"

text \<open>
  The histogram of the example: 10 at the hours 23, 0 and 1, and 0 elsewhere.  Two more:
  10 at the hour 5 alone; and 6 at the hour 0, 4 at the hours 10 and 11.
\<close>

definition wrap_histogram :: "HourlyActivity list" where
  "wrap_histogram =
     map (\<lambda>h. \<lparr>hour_of = h, count_of = (if h = 23 \<or> h = 0 \<or> h = 1 then 10 else 0)\<rparr>) [0..<24]"

definition lone_hour_histogram :: "HourlyActivity list" where
  "lone_hour_histogram =
     map (\<lambda>h. \<lparr>hour_of = h, count_of = (if h = 5 then 10 else 0)\<rparr>) [0..<24]"

definition pair_histogram :: "HourlyActivity list" where
  "pair_histogram =
     map (\<lambda>h. \<lparr>hour_of = h, count_of = (if h = 0 then 6 else if h = 10 \<or> h = 11 then 4 else 0)\<rparr>)
       [0..<24]"

section \<open>The store's query stages\<close>

text \<open>
  The service sends MongoDB pipelines; each stage it uses is a function on lists of
  documents.  Where MongoDB leaves an order open (the output of \<^verbatim>\<open>$group\<close>, documents with
  equal sort keys, a \<^verbatim>\<open>find\<close> without a sort) the model fixes it: groups appear in the
  order of their first document, sorting is stable, and \<^verbatim>\<open>find\<close> returns documents in
  the store's order.
\<close>

text \<open>The distinct keys of a list, in the order of their first occurrence.\<close>

definition first_keys :: "'k list \<Rightarrow> 'k list" where
  "first_keys ks = rev (remdups (rev ks))"

text \<open>\<^verbatim>\<open>{"$group": {"_id": "$key", ...}}\<close>: each key with the documents of its group.\<close>

definition group_by :: "('a \<Rightarrow> 'k) \<Rightarrow> 'a list \<Rightarrow> ('k \<times> 'a list) list" where
  "group_by key docs = map (\<lambda>k. (k, filter (\<lambda>d. key d = k) docs)) (first_keys (map key docs))"

text \<open>\<^verbatim>\<open>{"$sort": {field: -1}}\<close> and Python's \<^verbatim>\<open>sorted(..., reverse=True)\<close>, both stable.\<close>

definition sort_desc :: "('a \<Rightarrow> 'k::linordered_idom) \<Rightarrow> 'a list \<Rightarrow> 'a list" where
  "sort_desc key xs = sort_key (\<lambda>x. - key x) xs"

text \<open>
  The pipeline \<^verbatim>\<open>$match\<close>, \<^verbatim>\<open>$group\<close> by user name with \<^verbatim>\<open>{"$sum": 1}\<close>, \<^verbatim>\<open>$sort\<close> by count
  descending, \<^verbatim>\<open>$limit MAX_USERS_QUERY\<close>, which \<^verbatim>\<open>get_user_percentile\<close> and
  \<^verbatim>\<open>get_user_rankings\<close> share.  An entry is \<open>(_id, count)\<close>.
\<close>

definition user_counts :: "(msg \<Rightarrow> bool) \<Rightarrow> store \<Rightarrow> (string \<times> int) list" where
  "user_counts matches db =
     take MAX_USERS_QUERY
       (sort_desc snd
          (map (\<lambda>(u, ms). (u, int (length ms))) (group_by username (filter matches db))))"

section \<open>Floating-point numbers\<close>

text \<open>
  A Python \<^verbatim>\<open>float\<close> is a binary64 number: zero, or \<open>\<plusminus> n * 2 ^ (e - 52)\<close> with a 53-bit
  significand \<open>2 ^ 52 \<le> n < 2 ^ 53\<close>.  Each arithmetic operation of the source
  (\<^verbatim>\<open>/\<close>, \<^verbatim>\<open>*\<close>, \<^verbatim>\<open>math.sqrt\<close>, the conversion of an \<^verbatim>\<open>int\<close>) returns the binary64 number nearest
  to the exact result, a tie going to the even significand: \<open>fl\<close> of the exact result.
  The exponent is not bounded here: overflow to infinity and the subnormal numbers, which
  begin at \<open>2 ^ 1024\<close> and below \<open>2 ^ - 1022\<close>, are outside the model.

  \<open>round_half_even\<close> is rounding to the nearest integer, a tie going to the even one;
  \<open>binade x\<close> is the exponent \<open>e\<close> with \<open>2 ^ e \<le> x < 2 ^ (e + 1)\<close>, found by halving or doubling.
\<close>

definition round_half_even :: "real \<Rightarrow> int" where
  "round_half_even x =
     (let f = \<lfloor>x\<rfloor>; d = x - of_int f in
      if d < 1 / 2 then f else if 1 / 2 < d then f + 1 else if even f then f else f + 1)"

function exponent_up :: "real \<Rightarrow> nat" where
  "exponent_up x = (if x < 2 then 0 else Suc (exponent_up (x / 2)))"
  by pat_completeness auto
termination
proof (relation "measure (\<lambda>x. nat \<lfloor>x\<rfloor>)")
  show "wf (measure (\<lambda>x. nat \<lfloor>x\<rfloor>))" by simp
next
  fix x :: real
  assume "\<not> x < 2"
  then have x: "2 \<le> x" by simp
  then have "x / 2 + 1 \<le> x" by simp
  then have "\<lfloor>x / 2 + 1\<rfloor> \<le> \<lfloor>x\<rfloor>" by (rule floor_mono)
  then have h: "\<lfloor>x / 2\<rfloor> + 1 \<le> \<lfloor>x\<rfloor>" by simp
  from x have nn: "0 \<le> \<lfloor>x / 2\<rfloor>" by simp
  from h nn have "nat \<lfloor>x / 2\<rfloor> < nat \<lfloor>x\<rfloor>" by linarith
  then show "(x / 2, x) \<in> measure (\<lambda>x. nat \<lfloor>x\<rfloor>)" by simp
qed

function exponent_down :: "real \<Rightarrow> nat" where
  "exponent_down x = (if 1 \<le> x \<or> x \<le> 0 then 0 else Suc (exponent_down (2 * x)))"
  by pat_completeness auto
termination
proof (relation "measure (\<lambda>x. nat \<lceil>1 / x\<rceil>)")
  show "wf (measure (\<lambda>x. nat \<lceil>1 / x\<rceil>))" by simp
next
  fix x :: real
  assume "\<not> (1 \<le> x \<or> x \<le> 0)"
  then have x: "0 < x" "x < 1" by simp_all
  define y where "y = 1 / x"
  from x have y: "1 < y" by (simp add: y_def)
  then have c: "2 \<le> \<lceil>y\<rceil>" by linarith
  have "y / 2 \<le> of_int \<lceil>y\<rceil> / 2" by simp
  also have "\<dots> \<le> of_int (\<lceil>y\<rceil> - 1)" using c by simp
  finally have h: "\<lceil>y / 2\<rceil> \<le> \<lceil>y\<rceil> - 1" by (rule ceiling_le)
  have e: "1 / (2 * x) = y / 2" by (simp add: y_def)
  have "nat \<lceil>1 / (2 * x)\<rceil> < nat \<lceil>y\<rceil>"
    unfolding e using c h by linarith
  then show "(2 * x, x) \<in> measure (\<lambda>x. nat \<lceil>1 / x\<rceil>)"
    unfolding y_def by simp
qed

definition binade :: "real \<Rightarrow> int" where
  "binade x = (if 1 \<le> x then int (exponent_up x) else - int (exponent_down x))"

definition fl :: "real \<Rightarrow> real" where
  "fl x =
     (if x = 0 then 0
      else let q = 2 powi (binade \<bar>x\<bar> - 52) in of_int (round_half_even (x / q)) * q)"

text \<open>
  Python's \<^verbatim>\<open>round(x, 1)\<close>: the exact value of \<open>x\<close> is rounded to one decimal place, a tie
  going to the even digit, and the result is the binary64 number nearest to that decimal
  (\<^verbatim>\<open>round(0.05, 1)\<close> is \<^verbatim>\<open>0.1\<close>, because the double \<^verbatim>\<open>0.05\<close> lies above one twentieth).
\<close>

definition round1 :: "real \<Rightarrow> real" where
  "round1 x = fl (of_int (round_half_even (x * 10)) / 10)"

section \<open>Percentile: \<^verbatim>\<open>get_user_percentile\<close>\<close>

definition get_user_percentile :: "store \<Rightarrow> instant \<Rightarrow> string \<Rightarrow> string \<Rightarrow> real" where
  "get_user_percentile db now uname period =
     (let all_users = user_counts (in_window (get_date_filter now period)) db in
      if all_users = [] then 0
      else
        let user_count = (case map_of all_users (lower uname) of Some c \<Rightarrow> c | None \<Rightarrow> 0) in
        if user_count = 0 then 0
        else
          let below_count = length (filter (\<lambda>user. snd user < user_count) all_users);
              total_users = length all_users
          in if total_users > 0 then fl (fl (real below_count / real total_users) * 100) else 0)"

section \<open>Growth: \<^verbatim>\<open>get_rising_stars\<close>\<close>

text \<open>An entry of \<^verbatim>\<open>growth_data\<close> (a dictionary in the source).\<close>

record growth_entry =
  g_username :: string
  g_display_name :: string
  g_current_count :: int
  g_previous_count :: int
  g_growth_percent :: real

record RisingStarEntry =
  rs_rank :: nat
  rs_username :: string
  rs_display_name :: string
  rs_current_count :: int
  rs_previous_count :: int
  rs_growth_percent :: real

text \<open>
  The body of the loop over \<^verbatim>\<open>current_map.items()\<close>: \<^verbatim>\<open>current_count * 10.0\<close> converts the
  count and multiplies; \<^verbatim>\<open>((current_count - previous_count) / previous_count) * 100\<close> is the
  true division of two integers, correctly rounded, and then a multiplication.
\<close>

definition growth_of :: "int \<Rightarrow> int \<Rightarrow> real" where
  "growth_of current_count previous_count =
     (if previous_count = 0 then fl (fl (of_int current_count) * 10)
      else fl (fl (of_int (current_count - previous_count) / of_int previous_count) * 100))"

text \<open>
  \<^verbatim>\<open>growth_data\<close> after the sort.  The two facets are \<open>current\<close>, entries
  \<open>(_id, display_name, count)\<close>, and \<open>previous\<close>, entries \<open>(_id, count)\<close>;
  \<^verbatim>\<open>previous_map.get(username, 0)\<close> is the lookup with default 0.
\<close>

definition growth_data :: "store \<Rightarrow> instant \<Rightarrow> growth_entry list" where
  "growth_data db now =
     (let last_week = now - timedelta_days 7;
          prev_week = now - timedelta_days 14;
          current = map (\<lambda>(u, ms). (u, display_name (last ms), int (length ms)))
                      (group_by username (filter (\<lambda>m. last_week \<le> timestamp m) db));
          previous = map (\<lambda>(u, ms). (u, int (length ms)))
                      (group_by username
                         (filter (\<lambda>m. prev_week \<le> timestamp m \<and> timestamp m < last_week) db));
          entry = (\<lambda>(u, dn, current_count).
                     let previous_count = (case map_of previous u of Some c \<Rightarrow> c | None \<Rightarrow> 0) in
                     \<lparr>g_username = u, g_display_name = dn, g_current_count = current_count,
                      g_previous_count = previous_count,
                      g_growth_percent = growth_of current_count previous_count\<rparr>)
      in sort_desc g_growth_percent (map entry current))"

definition get_rising_stars :: "store \<Rightarrow> instant \<Rightarrow> nat \<Rightarrow> RisingStarEntry list" where
  "get_rising_stars db now limit =
     map (\<lambda>(i, e).
            \<lparr>rs_rank = i + 1, rs_username = g_username e, rs_display_name = g_display_name e,
             rs_current_count = g_current_count e, rs_previous_count = g_previous_count e,
             rs_growth_percent = round1 (g_growth_percent e)\<rparr>)
         (enumerate 0 (take limit (growth_data db now)))"

section \<open>Hour leaders and rankings: \<^verbatim>\<open>get_hour_leaders\<close>, \<^verbatim>\<open>get_user_rankings\<close>\<close>

record HourLeaderEntry =
  hl_hour :: nat
  hl_username :: string
  hl_display_name :: string
  hl_message_count :: int

text \<open>
  Two \<^verbatim>\<open>$group\<close> stages: by (hour, user name) with a count, then, after the sort by
  count, by hour with the \<^verbatim>\<open>$first\<close> document of each group.  A group is never empty.
\<close>

definition get_hour_leaders :: "store \<Rightarrow> HourLeaderEntry list" where
  "get_hour_leaders db =
     (let per_user = map (\<lambda>((h, u), ms). (h, u, display_name (last ms), int (length ms)))
                       (group_by (\<lambda>m. (hour m, username m)) db);
          sorted = sort_desc (\<lambda>(h, u, dn, c). c) per_user;
          per_hour = map (\<lambda>(h, es). case hd es of (h', u, dn, c) \<Rightarrow>
                            \<lparr>hl_hour = h, hl_username = u, hl_display_name = dn,
                             hl_message_count = c\<rparr>)
                       (group_by fst sorted)
      in take 24 (sort_key hl_hour per_hour))"

record UserRankings =
  top_rank :: "nat option"
  top_rank_change :: "int option"
  rising_rank :: "nat option"
  writers_rank :: "nat option"
  hours_dominated :: "nat list"

text \<open>
  The loop \<^verbatim>\<open>for i, user in enumerate(users): if user["_id"] == name: rank = i + 1; break\<close>,
  over the \<^verbatim>\<open>_id\<close>s of the table; \<open>i\<close> is the index of the head of the list.
\<close>

fun rank_of :: "nat \<Rightarrow> string \<Rightarrow> string list \<Rightarrow> nat option" where
  "rank_of i name [] = None"
| "rank_of i name (user # users) = (if user = name then Some (i + 1) else rank_of (i + 1) name users)"

text \<open>
  The writers' table: \<^verbatim>\<open>$group\<close> with the average of \<^verbatim>\<open>$strLenCP\<close> of the message and a
  count, \<^verbatim>\<open>$match\<close> count at least 10, \<^verbatim>\<open>$sort\<close> by the average descending, \<^verbatim>\<open>$limit\<close>.
\<close>

definition writers_table :: "store \<Rightarrow> (string \<times> real \<times> int) list" where
  "writers_table db =
     take MAX_USERS_QUERY
       (sort_desc (\<lambda>(u, avg_length, c). avg_length)
          (filter (\<lambda>(u, avg_length, c). 10 \<le> c)
             (map (\<lambda>(u, ms). (u, fl (real (sum_list (map (\<lambda>m. length (message m)) ms)) / real (length ms)),
                              int (length ms)))
                (group_by username db))))"

definition get_user_rankings :: "store \<Rightarrow> instant \<Rightarrow> string \<Rightarrow> string \<Rightarrow> UserRankings" where
  "get_user_rankings db now uname period =
     (let username_lower = lower uname;
          all_users = user_counts (in_window (get_date_filter now period)) db;
          top_rank = rank_of 0 username_lower (map fst all_users);
          top_rank_change =
            (case top_rank of
               None \<Rightarrow> None
             | Some tr \<Rightarrow>
                 let last_week = now - timedelta_days 7;
                     prev_week = now - timedelta_days 14;
                     prev_users = user_counts
                                    (\<lambda>m. prev_week \<le> timestamp m \<and> timestamp m < last_week) db;
                     prev_rank = rank_of 0 username_lower (map fst prev_users)
                 in (case prev_rank of
                       None \<Rightarrow> None
                     | Some pr \<Rightarrow> Some (int pr - int tr)));
          rising_entries = get_rising_stars db now 100;
          rising_rank = map_option rs_rank
                          (find (\<lambda>entry. rs_username entry = username_lower) rising_entries);
          writers_rank = rank_of 0 username_lower (map fst (writers_table db));
          hour_leaders = get_hour_leaders db
      in \<lparr>top_rank = top_rank, top_rank_change = top_rank_change, rising_rank = rising_rank,
          writers_rank = writers_rank,
          hours_dominated = map hl_hour
                              (filter (\<lambda>entry. hl_username entry = username_lower) hour_leaders)\<rparr>)"

section \<open>Rival: \<^verbatim>\<open>get_rival\<close>\<close>

record RivalInfo =
  rv_username :: string
  rv_display_name :: string
  similarity_score :: real

text \<open>A document of the candidate pool: \<^verbatim>\<open>_id\<close>, \<^verbatim>\<open>display_name\<close>, \<^verbatim>\<open>hours\<close>, \<^verbatim>\<open>total\<close>.\<close>

record candidate =
  c_id :: string
  c_display_name :: string
  c_hours :: "(nat \<times> int) list"
  c_total :: int

text \<open>
  The pool: \<^verbatim>\<open>$group\<close> by (user name, hour) with a count, \<^verbatim>\<open>$group\<close> by user name pushing
  the (hour, count) pairs and summing the counts, \<^verbatim>\<open>$sort\<close> by total descending, \<^verbatim>\<open>$limit\<close>.
\<close>

definition rival_pool :: "(msg \<Rightarrow> bool) \<Rightarrow> store \<Rightarrow> candidate list" where
  "rival_pool matches db =
     (let per_hour = map (\<lambda>((u, h), ms). (u, h, display_name (last ms), int (length ms)))
                       (group_by (\<lambda>m. (username m, hour m)) (filter matches db));
          per_user = map (\<lambda>(u, es).
                            \<lparr>c_id = u,
                             c_display_name = (case last es of (u', h, dn, c) \<Rightarrow> dn),
                             c_hours = map (\<lambda>(u', h, dn, c). (h, c)) es,
                             c_total = sum_list (map (\<lambda>(u', h, dn, c). c) es)\<rparr>)
                       (group_by fst per_hour)
      in take MAX_USERS_QUERY (sort_desc c_total per_user))"

text \<open>\<^verbatim>\<open>[other_hours.get(i, 0) for i in range(24)]\<close>\<close>

definition hours_vector :: "(nat \<times> int) list \<Rightarrow> int list" where
  "hours_vector hours = map (\<lambda>i. case map_of hours i of Some c \<Rightarrow> c | None \<Rightarrow> 0) [0..<24]"

text \<open>
  \<^verbatim>\<open>math.sqrt(sum(x * x for x in v))\<close>: the sum is an \<^verbatim>\<open>int\<close>, which \<^verbatim>\<open>math.sqrt\<close> converts
  to a \<^verbatim>\<open>float\<close>; the square root is correctly rounded.
\<close>

definition magnitude :: "int list \<Rightarrow> real" where
  "magnitude v = fl (sqrt (fl (of_int (sum_list (map (\<lambda>x. x * x) v)))))"

text \<open>\<^verbatim>\<open>sum(a * b for a, b in zip(v, w))\<close>\<close>

definition dot_product :: "int list \<Rightarrow> int list \<Rightarrow> int" where
  "dot_product v w = sum_list (map (\<lambda>(a, b). a * b) (zip v w))"

text \<open>
  \<^verbatim>\<open>(dot_product / (user_magnitude * other_magnitude)) * 100\<close>: the product of the two
  magnitudes, the dot product (an \<^verbatim>\<open>int\<close>) converted and divided by it, the quotient times 100;
  each of the four operations rounds.
\<close>

definition similarity :: "int list \<Rightarrow> int list \<Rightarrow> real" where
  "similarity v w =
     fl (fl (fl (of_int (dot_product v w)) / fl (magnitude v * magnitude w)) * 100)"

text \<open>One iteration of the loop over the pool; the state is \<open>(best_rival, best_similarity)\<close>.\<close>

definition rival_step ::
    "string \<Rightarrow> int list \<Rightarrow> RivalInfo option \<times> real \<Rightarrow> candidate \<Rightarrow> RivalInfo option \<times> real" where
  "rival_step uname user_vector st other_user =
     (if c_id other_user = lower uname then st
      else
        let other_vector = hours_vector (c_hours other_user) in
        if magnitude other_vector = 0 then st
        else if similarity user_vector other_vector > snd st
        then (Some \<lparr>rv_username = c_id other_user, rv_display_name = c_display_name other_user,
                    similarity_score = round1 (similarity user_vector other_vector)\<rparr>,
              similarity user_vector other_vector)
        else st)"

definition get_rival ::
    "store \<Rightarrow> instant \<Rightarrow> string \<Rightarrow> HourlyActivity list \<Rightarrow> string \<Rightarrow> RivalInfo option" where
  "get_rival db now uname hourly_pattern period =
     (let all_users = rival_pool (in_window (get_date_filter now period)) db in
      if all_users = [] then None
      else
        let user_vector = map count_of hourly_pattern in
        if magnitude user_vector = 0 then None
        else fst (foldl (rival_step uname user_vector) (None, - 1) all_users))"

section \<open>Replies: \<^verbatim>\<open>get_top_replies\<close>\<close>

record ReplyTarget =
  rt_username :: string
  rt_display_name :: string
  reply_count :: int

text \<open>
  A Python dictionary keeps its keys in the order of their insertion: an association
  list, updated in place or extended at its end.
\<close>

fun dict_set :: "'k \<Rightarrow> 'v \<Rightarrow> ('k \<times> 'v) list \<Rightarrow> ('k \<times> 'v) list" where
  "dict_set k v [] = [(k, v)]"
| "dict_set k v (p # ps) = (if fst p = k then (k, v) # ps else p # dict_set k v ps)"

text \<open>
  The query of the inner loop: the documents of other users with
  \<^verbatim>\<open>window_start <= timestamp < msg_time\<close>, at most 50 of them (\<^verbatim>\<open>.limit(50)\<close>).
\<close>

definition previous_messages :: "store \<Rightarrow> string \<Rightarrow> msg \<Rightarrow> msg list" where
  "previous_messages db uname m =
     (let msg_time = timestamp m;
          window_start = msg_time - timedelta_seconds 10
      in take 50
           (filter (\<lambda>p. username p \<noteq> lower uname \<and> window_start \<le> timestamp p \<and>
                        timestamp p < msg_time) db))"

text \<open>The body of the inner loop: the entry is created with count 0, then incremented.\<close>

definition credit :: "(string \<times> string \<times> int) list \<Rightarrow> msg \<Rightarrow> (string \<times> string \<times> int) list" where
  "credit reply_counts prev_msg =
     (let other_username = username prev_msg;
          rc = (if map_of reply_counts other_username = None
                then dict_set other_username (display_name prev_msg, 0) reply_counts
                else reply_counts)
      in case map_of rc other_username of
           Some (dn, c) \<Rightarrow> dict_set other_username (dn, c + 1) rc
         | None \<Rightarrow> rc)"

text \<open>The subject's messages, newest first, at most \<^verbatim>\<open>MAX_MESSAGES_QUERY\<close>.\<close>

definition user_messages :: "store \<Rightarrow> instant \<Rightarrow> string \<Rightarrow> string \<Rightarrow> msg list" where
  "user_messages db now uname period =
     take MAX_MESSAGES_QUERY
       (sort_desc timestamp
          (filter (\<lambda>m. username m = lower uname \<and> in_window (get_date_filter now period) m) db))"

text \<open>\<^verbatim>\<open>reply_counts\<close> after the two loops.\<close>

definition reply_counts :: "store \<Rightarrow> string \<Rightarrow> msg list \<Rightarrow> (string \<times> string \<times> int) list" where
  "reply_counts db uname msgs =
     foldl (\<lambda>rc m. foldl credit rc (previous_messages db uname m)) [] msgs"

definition get_top_replies :: "store \<Rightarrow> instant \<Rightarrow> string \<Rightarrow> string \<Rightarrow> nat \<Rightarrow> ReplyTarget list" where
  "get_top_replies db now uname period limit =
     (let msgs = user_messages db now uname period in
      if msgs = [] then []
      else
        let sorted_replies = take limit (sort_desc (\<lambda>(u, dn, c). c) (reply_counts db uname msgs))
        in map (\<lambda>(u, dn, c). \<lparr>rt_username = u, rt_display_name = dn, reply_count = c\<rparr>)
             sorted_replies)"

section \<open>Emote catalogue cache: \<^verbatim>\<open>get_7tv_emotes\<close>, \<^verbatim>\<open>count_emotes_in_messages\<close>\<close>

text \<open>
  What one \<^verbatim>\<open>client.get\<close> of the catalogue does: it raises \<^verbatim>\<open>httpx.TimeoutException\<close>,
  it raises another exception (a network error, a body that is not JSON), or it answers
  with a status code and the list under \<^verbatim>\<open>"emotes"\<close>.  An entry of that list is
  \<open>Some (name, id)\<close>, or \<open>None\<close> when it lacks one of the two keys (reading it raises
  \<^verbatim>\<open>KeyError\<close>).
\<close>

datatype http_outcome =
    TimeoutException
  | OtherException
  | Response nat "(string \<times> string) option list"

text \<open>The two module globals \<^verbatim>\<open>_7tv_emotes_cache\<close> and \<^verbatim>\<open>_7tv_cache_time\<close>.\<close>

record emote_cache =
  emotes_cache :: "(string \<times> string) list option"
  cache_time :: "instant option"

text \<open>
  The loop \<^verbatim>\<open>for emote in data.get("emotes", []): emotes[emote["name"]] = emote["id"]\<close>;
  the result says whether it raised.
\<close>

fun add_emotes ::
    "(string \<times> string) list \<Rightarrow> (string \<times> string) option list \<Rightarrow> (string \<times> string) list \<times> bool" where
  "add_emotes emotes [] = (emotes, False)"
| "add_emotes emotes (None # rest) = (emotes, True)"
| "add_emotes emotes (Some (name, ident) # rest) = add_emotes (dict_set name ident emotes) rest"

text \<open>One fetch inside the \<^verbatim>\<open>try\<close> block: the emotes so far, and whether it raised.\<close>

fun fetch_into :: "(string \<times> string) list \<Rightarrow> http_outcome \<Rightarrow> (string \<times> string) list \<times> bool" where
  "fetch_into emotes TimeoutException = (emotes, True)"
| "fetch_into emotes OtherException = (emotes, True)"
| "fetch_into emotes (Response status_code entries) =
     (if status_code = 200 then add_emotes emotes entries else (emotes, False))"

text \<open>
  \<open>channel\<close> and \<open>global\<close> are the outcomes of the two requests, should they be sent.
  Both \<^verbatim>\<open>except\<close> clauses only print; the two assignments to the globals follow the
  \<^verbatim>\<open>try\<close> statement and run on every path that reaches it.
\<close>

definition get_7tv_emotes ::
    "emote_cache \<Rightarrow> instant \<Rightarrow> http_outcome \<Rightarrow> http_outcome \<Rightarrow>
     (string \<times> string) list \<times> emote_cache" where
  "get_7tv_emotes st now channel global =
     (case (emotes_cache st, cache_time st) of
        (Some cached, Some t) \<Rightarrow>
          if now - t < timedelta_seconds 3600 then (cached, st)
          else
            let first_fetch = fetch_into [] channel;
                emotes = (if snd first_fetch then fst first_fetch
                          else fst (fetch_into (fst first_fetch) global))
            in (emotes, \<lparr>emotes_cache = Some emotes, cache_time = Some now\<rparr>)
      | _ \<Rightarrow>
          let first_fetch = fetch_into [] channel;
              emotes = (if snd first_fetch then fst first_fetch
                        else fst (fetch_into (fst first_fetch) global))
          in (emotes, \<lparr>emotes_cache = Some emotes, cache_time = Some now\<rparr>))"

record EmoteUsage =
  emote_name :: string
  emote_id :: string
  emote_count :: int

text \<open>
  \<^verbatim>\<open>str.split()\<close>: the maximal runs of characters that are not whitespace.  The whitespace
  characters (\<^verbatim>\<open>str.isspace\<close>) below 256 are U+0009 to U+000D, U+001C to U+0020, U+0085 and
  U+00A0.
\<close>

definition is_space :: "char \<Rightarrow> bool" where
  "is_space c = (c \<in> set [CHR '' '', CHR 0x09, CHR 0x0A, CHR 0x0B, CHR 0x0C, CHR 0x0D,
                            CHR 0x1C, CHR 0x1D, CHR 0x1E, CHR 0x1F, CHR 0x85, CHR 0xA0])"

fun split_words :: "string \<Rightarrow> string \<Rightarrow> string list" where
  "split_words word [] = (if word = [] then [] else [word])"
| "split_words word (c # cs) =
     (if is_space c then (if word = [] then split_words [] cs else word # split_words [] cs)
      else split_words (word @ [c]) cs)"

definition split :: "string \<Rightarrow> string list" where
  "split s = split_words [] s"

text \<open>\<^verbatim>\<open>if word in emotes: counts[word] = counts.get(word, 0) + 1\<close>\<close>

definition count_word ::
    "(string \<times> string) list \<Rightarrow> (string \<times> int) list \<Rightarrow> string \<Rightarrow> (string \<times> int) list" where
  "count_word emotes counts word =
     (if map_of emotes word \<noteq> None
      then dict_set word ((case map_of counts word of Some c \<Rightarrow> c | None \<Rightarrow> 0) + 1) counts
      else counts)"

definition count_emotes_in_messages ::
    "emote_cache \<Rightarrow> instant \<Rightarrow> http_outcome \<Rightarrow> http_outcome \<Rightarrow> string list \<Rightarrow> nat \<Rightarrow>
     EmoteUsage list \<times> emote_cache" where
  "count_emotes_in_messages st now channel global messages limit =
     (let (emotes, st') = get_7tv_emotes st now channel global in
      if emotes = [] then ([], st')
      else
        let counts = foldl (\<lambda>counts m. foldl (count_word emotes) counts (split m)) [] messages;
            sorted_emotes = take limit (sort_desc snd counts)
        in (map (\<lambda>(name, c). \<lparr>emote_name = name, emote_id = the (map_of emotes name),
                                emote_count = c\<rparr>) sorted_emotes,
            st'))"

definition get_user_top_emotes ::
    "store \<Rightarrow> emote_cache \<Rightarrow> instant \<Rightarrow> http_outcome \<Rightarrow> http_outcome \<Rightarrow> string \<Rightarrow> nat \<Rightarrow>
     EmoteUsage list \<times> emote_cache" where
  "get_user_top_emotes db st now channel global uname limit =
     (let thirty_days_ago = now - timedelta_days 30;
          messages = take MAX_MESSAGES_QUERY
                       (filter (\<lambda>m. username m = lower uname \<and> thirty_days_ago \<le> timestamp m) db)
      in count_emotes_in_messages st now channel global (map message messages) limit)"

section \<open>Composite: \<^verbatim>\<open>get_user_stats\<close>\<close>

record RecentMessage =
  rm_message :: string
  rm_timestamp :: instant

record FavoriteHour =
  fh_hour :: nat
  fh_count :: int
  fh_percentage :: real

record UserStats =
  us_username :: string
  us_display_name :: string
  us_period :: string
  total_messages :: int
  hourly_activity :: "HourlyActivity list"
  recent_messages :: "RecentMessage list"
  first_message_date :: "instant option"
  last_message_date :: "instant option"
  percentile :: real
  peak_hours :: "nat list"
  favorite_hour :: "FavoriteHour option"
  rival :: "RivalInfo option"
  top_replies :: "ReplyTarget list"
  rankings :: UserRankings
  top_emotes :: "EmoteUsage list"

text \<open>
  The histogram: the \<^verbatim>\<open>hourly\<close> facet groups the matching documents by \<^verbatim>\<open>hour\<close> and
  counts them; the comprehension over \<^verbatim>\<open>range(24)\<close> looks each hour up with default 0.
\<close>

definition hourly_counts :: "msg list \<Rightarrow> (nat \<times> int) list" where
  "hourly_counts docs =
     sort_key fst (map (\<lambda>(h, ms). (h, int (length ms))) (group_by hour docs))"

definition hourly_histogram :: "(nat \<times> int) list \<Rightarrow> HourlyActivity list" where
  "hourly_histogram hourly =
     map (\<lambda>h. \<lparr>hour_of = h, count_of = (case map_of hourly h of Some c \<Rightarrow> c | None \<Rightarrow> 0)\<rparr>)
       [0..<24]"

text \<open>\<^verbatim>\<open>max(xs, key=...)\<close> on a non-empty list: the first element of greatest key.\<close>

fun max_by :: "('a \<Rightarrow> int) \<Rightarrow> 'a \<Rightarrow> 'a list \<Rightarrow> 'a" where
  "max_by key best [] = best"
| "max_by key best (x # xs) = max_by key (if key x > key best then x else best) xs"

text \<open>
  The whole function.  \<open>st\<close>, \<open>channel\<close> and \<open>global\<close> are the emote cache and the
  outcomes of the catalogue requests, which \<^verbatim>\<open>get_user_top_emotes\<close> may use; the request is
  evaluated at the one instant \<open>now\<close>.  The \<^verbatim>\<open>$facet\<close> stage always yields one document;
  its \<^verbatim>\<open>total\<close> facet is empty when nothing matches.
\<close>

definition get_user_stats ::
    "store \<Rightarrow> emote_cache \<Rightarrow> instant \<Rightarrow> http_outcome \<Rightarrow> http_outcome \<Rightarrow> string \<Rightarrow> string \<Rightarrow>
     py_error + (UserStats option \<times> emote_cache)" where
  "get_user_stats db st now channel global uname period =
     (let date_filter = get_date_filter now period;
          matched = filter (\<lambda>m. username m = lower uname \<and> in_window date_filter m) db;
          total = int (length matched)
      in
      if total = 0 then Inr (None, st)
      else
        let hourly_activity = hourly_histogram (hourly_counts matched);
            recent_docs = take 10 (sort_desc timestamp (filter (\<lambda>m. username m = lower uname) db));
            recent_messages = map (\<lambda>doc. \<lparr>rm_message = message doc, rm_timestamp = timestamp doc\<rparr>)
                                recent_docs;
            percentile = get_user_percentile db now uname period
        in
        case get_peak_hours hourly_activity of
          Inl e \<Rightarrow> Inl e
        | Inr peaks \<Rightarrow>
            let rival = get_rival db now uname hourly_activity period;
                top_replies = get_top_replies db now uname period 5;
                rankings = get_user_rankings db now uname period;
                (emotes_used, st') = get_user_top_emotes db st now channel global uname 10;
                max_hour = max_by count_of (hd hourly_activity) (tl hourly_activity);
                favorite_hour =
                  (if count_of max_hour > 0
                   then Some \<lparr>fh_hour = hour_of max_hour, fh_count = count_of max_hour,
                              fh_percentage = round1 (fl (fl (of_int (count_of max_hour) / of_int total) * 100))\<rparr>
                   else None)
            in Inr (Some \<lparr>us_username = lower uname,
                           us_display_name = display_name (last matched),
                           us_period = period,
                           total_messages = total,
                           hourly_activity = hourly_activity,
                           recent_messages = recent_messages,
                           first_message_date = Some (Min (set (map timestamp matched))),
                           last_message_date = Some (Max (set (map timestamp matched))),
                           percentile = round1 percentile,
                           peak_hours = peaks,
                           favorite_hour = favorite_hour,
                           rival = rival,
                           top_replies = top_replies,
                           rankings = rankings,
                           top_emotes = emotes_used\<rparr>, st'))"

section \<open>Overall histogram: \<^verbatim>\<open>get_overall_hourly_activity\<close>\<close>

record ChatActivityPoint =
  cap_hour :: nat
  cap_count :: int

text \<open>One iteration of the loop that finds the peak; the state is \<open>(peak_hour, peak_count)\<close>.\<close>

definition peak_of :: "nat \<times> int \<Rightarrow> ChatActivityPoint \<Rightarrow> nat \<times> int" where
  "peak_of st a = (if cap_count a > snd st then (cap_hour a, cap_count a) else st)"

definition get_overall_hourly_activity :: "store \<Rightarrow> ChatActivityPoint list \<times> int \<times> nat \<times> int" where
  "get_overall_hourly_activity db =
     (let results = take 24 (hourly_counts db);
          activity = map (\<lambda>h. \<lparr>cap_hour = h,
                                 cap_count = (case map_of results h of Some c \<Rightarrow> c | None \<Rightarrow> 0)\<rparr>)
                       [0..<24];
          total_messages = sum_list (map cap_count activity);
          peak = foldl peak_of (0, 0) activity
      in (activity, total_messages, fst peak, snd peak))"

section \<open>Notions the properties are stated with\<close>

text \<open>
  The number of documents of the store that pass a filter and belong to a user: the
  count the properties compare the tables of the service with.
\<close>

definition message_count :: "(msg \<Rightarrow> bool) \<Rightarrow> store \<Rightarrow> string \<Rightarrow> int" where
  "message_count matches db u = int (length (filter (\<lambda>m. matches m \<and> username m = u) db))"

text \<open>The entries of the table of \<open>user_counts\<close> before the sort and the limit.\<close>

definition grouped_counts :: "(msg \<Rightarrow> bool) \<Rightarrow> store \<Rightarrow> (string \<times> int) list" where
  "grouped_counts matches db =
     map (\<lambda>(u, ms). (u, int (length ms))) (group_by username (filter matches db))"

text \<open>A document for the examples: the display name is the user name, the text is fixed.\<close>

definition chat :: "string \<Rightarrow> instant \<Rightarrow> nat \<Rightarrow> msg" where
  "chat u t h = \<lparr>username = u, display_name = u, message = ''hello'', timestamp = t, hour = h\<rparr>"

text \<open>
  The two back-to-back windows of seven days that end now: the prior one, days 14 to 7
  ago, and the latest one.
\<close>

definition prior_week :: "instant \<Rightarrow> msg \<Rightarrow> bool" where
  "prior_week now m = (now - timedelta_days 14 \<le> timestamp m \<and> timestamp m < now - timedelta_days 7)"

definition latest_week :: "instant \<Rightarrow> msg \<Rightarrow> bool" where
  "latest_week now m = (now - timedelta_days 7 \<le> timestamp m)"

text \<open>The ranked names of a window: the \<^verbatim>\<open>_id\<close>s of its table, in rank order.\<close>

definition ranked :: "(msg \<Rightarrow> bool) \<Rightarrow> store \<Rightarrow> string list" where
  "ranked matches db = map fst (user_counts matches db)"

text \<open>
  Example stores, read at the instant of 22 days: one message that is 10 days old; and
  two actors, Bob ahead in the prior week, Ana ahead in the latest one.
\<close>

definition old_only :: store where
  "old_only = [chat ''ana'' (timedelta_days 12) 3]"

definition two_weeks :: store where
  "two_weeks =
     [chat ''bob'' (timedelta_days 9) 1, chat ''bob'' (timedelta_days 10) 1,
      chat ''ana'' (timedelta_days 11) 2,
      chat ''ana'' (timedelta_days 16) 2, chat ''ana'' (timedelta_days 17) 2,
      chat ''bob'' (timedelta_days 18) 1]"


definition stale_cache :: emote_cache where
  "stale_cache = \<lparr>emotes_cache = Some [(''Kappa'', ''1'')], cache_time = Some 0\<rparr>"

text \<open>
  Example stores for the growth ranking, read at the instant of 22 days: an actor with 3
  messages in the prior week and 4 in the latest; and two actors, one with no message
  before and 5 in the latest week, one with 10 and then 15.
\<close>

definition thirds :: store where
  "thirds =
     [chat ''ana'' (timedelta_days 9) 1, chat ''ana'' (timedelta_days 10) 1,
      chat ''ana'' (timedelta_days 11) 2,
      chat ''ana'' (timedelta_days 16) 2, chat ''ana'' (timedelta_days 17) 2,
      chat ''ana'' (timedelta_days 18) 1, chat ''ana'' (timedelta_days 19) 1]"

definition five_and_fifteen :: store where
  "five_and_fifteen =
     map (\<lambda>i. chat ''new'' (timedelta_days 16 + i) 1) [0..<5] @
     map (\<lambda>i. chat ''old'' (timedelta_days 9 + i) 2) [0..<10] @
     map (\<lambda>i. chat ''old'' (timedelta_days 17 + i) 2) [0..<15]"

text \<open>One actor with no message before and 11 in the latest week, one with 10 and then 21.\<close>

definition eleven_and_twentyone :: store where
  "eleven_and_twentyone =
     map (\<lambda>i. chat ''new'' (timedelta_days 16 + i) 1) [0..<11] @
     map (\<lambda>i. chat ''old'' (timedelta_days 9 + i) 2) [0..<10] @
     map (\<lambda>i. chat ''old'' (timedelta_days 17 + i) 2) [0..<21]"

text \<open>The growth of the specification, in exact arithmetic.\<close>

definition growth_formula :: "int \<Rightarrow> int \<Rightarrow> real" where
  "growth_formula current_count previous_count =
     (if previous_count = 0 then of_int current_count * 10
      else (of_int (current_count - previous_count) / of_int previous_count) * 100)"

text \<open>
  The documents that match the actor filter and the window of a period (the \<^verbatim>\<open>$match\<close>
  stage of \<^verbatim>\<open>get_user_stats\<close>), counted independently of the histogram by their number;
  the store is well formed when every stored hour is one of 0 to 23, as the bot writes it.
\<close>

definition matched :: "store \<Rightarrow> instant \<Rightarrow> string \<Rightarrow> string \<Rightarrow> msg list" where
  "matched db now uname period =
     filter (\<lambda>m. username m = lower uname \<and> in_window (get_date_filter now period) m) db"

definition well_formed :: "store \<Rightarrow> bool" where
  "well_formed db = (\<forall>m \<in> set db. hour m < 24)"

text \<open>The actor's ten most recent messages of all time, newest first.\<close>

definition recent :: "store \<Rightarrow> string \<Rightarrow> RecentMessage list" where
  "recent db uname =
     map (\<lambda>doc. \<lparr>rm_message = message doc, rm_timestamp = timestamp doc\<rparr>)
       (take 10 (sort_desc timestamp (filter (\<lambda>m. username m = lower uname) db)))"

text \<open>
  An example store, read at the instant of 22 days with the period \<open>day\<close>: one message
  of the last day and one that is three weeks old.
\<close>

definition old_and_new :: store where
  "old_and_new =
     [chat ''ana'' (timedelta_days 1) 7, chat ''bob'' (timedelta_days 2) 8,
      chat ''ana'' (timedelta_days 21 + timedelta_hours 12) 9]"

text \<open>
  The messages of other actors in the ten seconds before a message \<open>m\<close> of the subject,
  the start of the interval included and the instant of \<open>m\<close> excluded; and the credit of
  an actor \<open>other\<close> over the subject's messages \<open>msgs\<close>: for each of them, the messages
  of \<open>other\<close> among the first 50 of that window.
\<close>

definition reply_window :: "store \<Rightarrow> string \<Rightarrow> msg \<Rightarrow> msg list" where
  "reply_window db uname m =
     filter (\<lambda>p. username p \<noteq> lower uname \<and> timestamp m - timedelta_seconds 10 \<le> timestamp p \<and>
                  timestamp p < timestamp m) db"

definition credits :: "store \<Rightarrow> string \<Rightarrow> msg list \<Rightarrow> string \<Rightarrow> int" where
  "credits db uname msgs other =
     sum_list (map (\<lambda>m. int (length (filter (\<lambda>p. username p = other)
                                        (take 50 (reply_window db uname m))))) msgs)"

text \<open>
  Example stores: A posts at 100 s, B posted at 95 s and at 80 s; and A posts at 100 s
  after 51 messages of B at 95 s.
\<close>

definition a_after_b :: store where
  "a_after_b =
     [chat ''b'' (timedelta_seconds 80) 1, chat ''b'' (timedelta_seconds 95) 1,
      chat ''a'' (timedelta_seconds 100) 1]"

definition a_after_51 :: store where
  "a_after_51 =
     map (\<lambda>i. chat ''b'' (timedelta_seconds 95) 1) [0..<51] @ [chat ''a'' (timedelta_seconds 100) 1]"

text \<open>The count that the dictionary \<^verbatim>\<open>reply_counts\<close> holds for an actor, 0 without an entry.\<close>

definition tally :: "(string \<times> string \<times> int) list \<Rightarrow> string \<Rightarrow> int" where
  "tally rc other = (case map_of rc other of Some (dn, c) \<Rightarrow> c | None \<Rightarrow> 0)"

text \<open>
  The sum of the squares of a vector.  A candidate of the rival finder: a document of the
  pool other than the subject's whose vector is not all zero, in the order of the pool;
  the similarity the loop computes for a candidate; and the result it builds for one.
\<close>

definition sum_squares :: "int list \<Rightarrow> int" where
  "sum_squares v = sum_list (map (\<lambda>x. x * x) v)"

definition is_candidate :: "string \<Rightarrow> candidate \<Rightarrow> bool" where
  "is_candidate uname c =
     (c_id c \<noteq> lower uname \<and> list_ex (\<lambda>x. x \<noteq> 0) (hours_vector (c_hours c)))"

definition rival_candidates :: "store \<Rightarrow> instant \<Rightarrow> string \<Rightarrow> string \<Rightarrow> candidate list" where
  "rival_candidates db now uname period =
     filter (is_candidate uname) (rival_pool (in_window (get_date_filter now period)) db)"

definition score :: "int list \<Rightarrow> candidate \<Rightarrow> real" where
  "score v c = similarity v (hours_vector (c_hours c))"

definition rival_info :: "int list \<Rightarrow> candidate \<Rightarrow> RivalInfo" where
  "rival_info v c =
     \<lparr>rv_username = c_id c, rv_display_name = c_display_name c,
      similarity_score = round1 (score v c)\<rparr>"

text \<open>
  The cosine similarity of the specification, of two histograms over the hours 0 to 23, in
  exact arithmetic: \<open>dot(v, w) / (||v|| * ||w||) * 100\<close>.
\<close>

definition cosine_similarity :: "int list \<Rightarrow> int list \<Rightarrow> real" where
  "cosine_similarity v w =
     of_int (\<Sum>i<24. v ! i * w ! i)
       / (sqrt (of_int (\<Sum>i<24. v ! i * v ! i)) * sqrt (of_int (\<Sum>i<24. w ! i * w ! i))) * 100"

text \<open>An example store: two actors with the same histogram, one message at 3 and one at 4.\<close>

definition twins :: store where
  "twins = [chat ''ana'' 1 3, chat ''bob'' 2 3, chat ''ana'' 3 4, chat ''bob'' 4 4]"

text \<open>
  An example store: the subject \<open>ana\<close> and \<open>twin\<close> write 2 messages at 3 and 3 at 4, and \<open>big\<close>
  three times as many at the same hours, so that the three histograms have the same
  direction and \<open>big\<close> is first in the pool.
\<close>

definition rivals :: store where
  "rivals =
     replicate 6 (chat ''big'' 1 3) @ replicate 9 (chat ''big'' 2 4) @
     replicate 2 (chat ''twin'' 3 3) @ replicate 3 (chat ''twin'' 4 4) @
     replicate 2 (chat ''ana'' 5 3) @ replicate 3 (chat ''ana'' 6 4)"

text \<open>
  \<open>close_to n x e\<close>: the computed \<open>x\<close> agrees with the exact \<open>e\<close> up to \<open>n\<close> roundings, each of a
  relative error of at most \<open>2 ^ - 53\<close>.
\<close>

definition close_to :: "nat \<Rightarrow> real \<Rightarrow> real \<Rightarrow> bool" where
  "close_to n x e \<longleftrightarrow> e * (1 - 1 / 2 ^ 53) ^ n \<le> x \<and> x * (1 - 1 / 2 ^ 53) ^ n \<le> e"

section \<open>Verified properties: floating-point numbers\<close>

text \<open>
  Rounding to the nearest integer errs by at most one half, and a tie goes to the even
  integer.  \<open>fl\<close> errs by at most the fraction \<open>2 ^ - 53\<close> of its argument, keeps the sign, and
  is determined by a significand and an exponent that enclose the argument.
\<close>

lemma round_half_even_error: "\<bar>of_int (round_half_even x) - x\<bar> \<le> 1 / 2"
proof -
  have a: "of_int \<lfloor>x\<rfloor> \<le> x" and b: "x < of_int \<lfloor>x\<rfloor> + 1" by linarith+
  show ?thesis
    unfolding round_half_even_def Let_def using a b by (simp split: if_splits)
qed

lemma round_half_even_eqI:
  assumes "\<bar>x - of_int n\<bar> < 1 / 2"
  shows "round_half_even x = n"
proof -
  have e: "\<bar>of_int (round_half_even x) - x\<bar> \<le> 1 / 2" by (rule round_half_even_error)
  from assms e have "\<bar>(of_int (round_half_even x) :: real) - of_int n\<bar> < 1" by linarith
  then have "\<bar>(of_int (round_half_even x - n) :: real)\<bar> < 1" by simp
  then have "\<bar>round_half_even x - n\<bar> < 1" by linarith
  then show ?thesis by simp
qed

lemma exponent_up_bounds:
  "1 \<le> x \<Longrightarrow> 2 ^ exponent_up x \<le> x \<and> x < 2 ^ Suc (exponent_up x)"
proof (induction x rule: exponent_up.induct)
  case (1 x)
  show ?case
  proof (cases "x < 2")
    case True
    with 1 show ?thesis by simp
  next
    case False
    then have "1 \<le> x / 2" by simp
    with 1 False have ih: "2 ^ exponent_up (x / 2) \<le> x / 2 \<and> x / 2 < 2 ^ Suc (exponent_up (x / 2))"
      by blast
    have e: "exponent_up x = Suc (exponent_up (x / 2))" using False by simp
    show ?thesis unfolding e using ih by simp
  qed
qed

lemma exponent_down_bounds:
  "0 < x \<Longrightarrow> x < 1 \<Longrightarrow> 1 / 2 ^ exponent_down x \<le> x \<and> x < 2 / 2 ^ exponent_down x"
proof (induction x rule: exponent_down.induct)
  case (1 x)
  have e: "exponent_down x = Suc (exponent_down (2 * x))" using 1 by simp
  show ?case
  proof (cases "1 \<le> 2 * x")
    case True
    then have "exponent_down (2 * x) = 0" by simp
    with e have "exponent_down x = 1" by simp
    with True 1 show ?thesis by simp
  next
    case False
    with 1 have ih: "1 / 2 ^ exponent_down (2 * x) \<le> 2 * x \<and> 2 * x < 2 / 2 ^ exponent_down (2 * x)"
      by simp
    show ?thesis unfolding e using ih by (simp add: field_simps)
  qed
qed

lemma binade_bounds:
  assumes "0 < x"
  shows "2 powi binade x \<le> x" and "x < 2 powi (binade x + 1)"
proof -
  have "2 powi binade x \<le> x \<and> x < 2 powi (binade x + 1)"
  proof (cases "1 \<le> x")
    case True
    then have b: "binade x = int (exponent_up x)" by (simp add: binade_def)
    have s: "int (exponent_up x) + 1 = int (Suc (exponent_up x))" by simp
    show ?thesis unfolding b s power_int_of_nat using exponent_up_bounds [OF True] .
  next
    case False
    then have x1: "x < 1" by simp
    from False have b: "binade x = - int (exponent_down x)" by (simp add: binade_def)
    have n: "exponent_down x = Suc (exponent_down (2 * x))" using assms x1 by simp
    have p1: "(2::real) powi (- int (exponent_down x)) = 1 / 2 ^ exponent_down x"
      by (simp add: power_int_minus_divide)
    have "(2::real) powi (- int (exponent_down x) + 1) = 2 powi (- int (exponent_down x)) * 2 powi 1"
      by (rule power_int_add) simp
    then have p2: "(2::real) powi (- int (exponent_down x) + 1) = 2 / 2 ^ exponent_down x"
      unfolding p1 by simp
    show ?thesis unfolding b p1 p2 using exponent_down_bounds [OF assms x1] .
  qed
  then show "2 powi binade x \<le> x" and "x < 2 powi (binade x + 1)" by simp_all
qed

lemma binade_unique:
  assumes "2 powi e \<le> x" and "x < 2 powi (e + 1)"
  shows "binade x = (e::int)"
proof -
  have pos: "0 < x" using assms(1) zero_less_power_int [of "2::real" e] by linarith
  note b = binade_bounds [OF pos]
  have "\<not> binade x < e"
  proof
    assume "binade x < e"
    then have "binade x + 1 \<le> e" by simp
    then have "(2::real) powi (binade x + 1) \<le> 2 powi e" by (rule power_int_increasing) simp
    with b(2) assms(1) show False by linarith
  qed
  moreover have "\<not> e < binade x"
  proof
    assume "e < binade x"
    then have "e + 1 \<le> binade x" by simp
    then have "(2::real) powi (e + 1) \<le> 2 powi binade x" by (rule power_int_increasing) simp
    with b(1) assms(2) show False by linarith
  qed
  ultimately show ?thesis by simp
qed

lemma ulp_split: "(2::real) powi (e - 52) = 2 powi e / 2 ^ 52"
proof -
  have "(2::real) powi (e - 52) = 2 powi e / 2 powi 52" by (rule power_int_diff) simp
  then show ?thesis by simp
qed

lemma fl_0: "fl 0 = 0"
  by (simp add: fl_def)

lemma fl_error: "\<bar>fl x - x\<bar> \<le> \<bar>x\<bar> / 2 ^ 53"
proof (cases "x = 0")
  case True
  then show ?thesis by (simp add: fl_def)
next
  case False
  define e where "e = binade \<bar>x\<bar>"
  define q where "q = (2::real) powi (e - 52)"
  define n where "n = round_half_even (x / q)"
  have qpos: "0 < q" by (simp add: q_def)
  have f: "fl x = of_int n * q"
    using False by (simp add: fl_def Let_def e_def q_def n_def)
  have r: "\<bar>of_int n - x / q\<bar> \<le> 1 / 2"
    unfolding n_def by (rule round_half_even_error)
  have "fl x - x = (of_int n - x / q) * q"
    unfolding f using qpos by (simp add: field_simps)
  then have "\<bar>fl x - x\<bar> = \<bar>of_int n - x / q\<bar> * q"
    using qpos by (simp add: abs_mult)
  also have "\<dots> \<le> 1 / 2 * q"
    using r qpos by (intro mult_right_mono) simp_all
  finally have a: "\<bar>fl x - x\<bar> \<le> q / 2" by simp
  have ax: "0 < \<bar>x\<bar>" using False by simp
  have "2 powi e \<le> \<bar>x\<bar>" unfolding e_def by (rule binade_bounds(1) [OF ax])
  then have "q \<le> \<bar>x\<bar> / 2 ^ 52" unfolding q_def ulp_split by (simp add: divide_right_mono)
  with a show ?thesis by simp
qed

lemma fl_lower:
  assumes "0 \<le> x"
  shows "x * (1 - 1 / 2 ^ 53) \<le> fl x"
proof -
  have e: "\<bar>fl x - x\<bar> \<le> x / 9007199254740992" using fl_error [of x] assms by simp
  have "x * (1 - 1 / 2 ^ 53) = x - x / 9007199254740992" by (simp add: algebra_simps)
  with e show ?thesis by linarith
qed

lemma fl_upper:
  assumes "0 \<le> x"
  shows "fl x \<le> x * (1 + 1 / 2 ^ 53)"
proof -
  have e: "\<bar>fl x - x\<bar> \<le> x / 9007199254740992" using fl_error [of x] assms by simp
  have "x * (1 + 1 / 2 ^ 53) = x + x / 9007199254740992" by (simp add: algebra_simps)
  with e show ?thesis by linarith
qed

lemma fl_nonneg:
  assumes "0 \<le> x"
  shows "0 \<le> fl x"
proof -
  have "0 \<le> x * (1 - 1 / 2 ^ 53)" using assms by (intro mult_nonneg_nonneg) simp_all
  with fl_lower [OF assms] show ?thesis by linarith
qed

lemma fl_eq_0_iff: "fl x = 0 \<longleftrightarrow> x = 0"
proof
  assume z: "fl x = 0"
  have "\<bar>fl x - x\<bar> \<le> \<bar>x\<bar> / 2 ^ 53" by (rule fl_error)
  with z have "\<bar>x\<bar> \<le> \<bar>x\<bar> / 2 ^ 53" by simp
  then have "\<bar>x\<bar> * 2 ^ 53 \<le> \<bar>x\<bar>" by (simp add: field_simps)
  then have "\<bar>x\<bar> \<le> 0" by simp
  then show "x = 0" by simp
next
  assume "x = 0"
  then show "fl x = 0" by (simp add: fl_def)
qed

lemma fl_pos:
  assumes "0 < x"
  shows "0 < fl x"
  using fl_nonneg [of x] fl_eq_0_iff [of x] assms by (simp add: less_le)

lemma fl_eqI:
  assumes n: "2 ^ 52 < n" "n < 2 ^ 53"
    and lo: "(of_int n - 1 / 2) * 2 powi (e - 52) < x"
    and hi: "x < (of_int n + 1 / 2) * 2 powi (e - 52)"
  shows "fl x = of_int n * 2 powi (e - 52)"
proof -
  define q where "q = (2::real) powi (e - 52)"
  have qpos: "0 < q" by (simp add: q_def)
  have pe: "(2::real) powi e = 2 ^ 52 * q" unfolding q_def ulp_split by simp
  have "(2::real) powi (e + 1) = 2 powi e * 2 powi 1" by (rule power_int_add) simp
  then have pe1: "(2::real) powi (e + 1) = 2 ^ 53 * q" unfolding pe by simp
  from n have ni: "2 ^ 52 + 1 \<le> n" "n \<le> 2 ^ 53 - 1" by simp_all
  from ni(1) have "(of_int (2 ^ 52 + 1) :: real) \<le> of_int n" by (simp only: of_int_le_iff)
  moreover from ni(2) have "(of_int n :: real) \<le> of_int (2 ^ 53 - 1)" by (simp only: of_int_le_iff)
  ultimately have nr: "(2::real) ^ 52 + 1 \<le> of_int n" "(of_int n :: real) \<le> 2 ^ 53 - 1"
    by simp_all
  have "2 ^ 52 * q \<le> (of_int n - 1 / 2) * q"
    using nr(1) qpos by (intro mult_right_mono) simp_all
  with lo have xlo: "2 powi e \<le> x" unfolding pe q_def by linarith
  have "(of_int n + 1 / 2) * q \<le> 2 ^ 53 * q"
    using nr(2) qpos by (intro mult_right_mono) simp_all
  with hi have xhi: "x < 2 powi (e + 1)" unfolding pe1 q_def by linarith
  have xpos: "0 < x" using xlo zero_less_power_int [of "2::real" e] by linarith
  have b: "binade x = e" by (rule binade_unique [OF xlo xhi])
  have "of_int n - 1 / 2 < x / q" using lo qpos unfolding q_def [symmetric]
    by (simp add: pos_less_divide_eq)
  moreover have "x / q < of_int n + 1 / 2" using hi qpos unfolding q_def [symmetric]
    by (simp add: pos_divide_less_eq)
  ultimately have "\<bar>x / q - of_int n\<bar> < 1 / 2" by linarith
  then have r: "round_half_even (x / q) = n" by (rule round_half_even_eqI)
  show ?thesis using xpos r by (simp add: fl_def Let_def b q_def)
qed


lemma round_half_even_tie:
  assumes "\<bar>x - of_int (round_half_even x)\<bar> = 1 / 2"
  shows "even (round_half_even x)"
proof -
  have a: "of_int \<lfloor>x\<rfloor> \<le> x" and b: "x < of_int \<lfloor>x\<rfloor> + 1" by linarith+
  show ?thesis
    using assms a b unfolding round_half_even_def Let_def
    by (simp split: if_splits)
qed

lemma round_half_even_le:
  assumes "x < of_int n + 1 / 2"
  shows "round_half_even x \<le> n"
proof -
  have "\<bar>of_int (round_half_even x) - x\<bar> \<le> 1 / 2" by (rule round_half_even_error)
  with assms have "(of_int (round_half_even x) :: real) < of_int n + 1" by linarith
  then have "(of_int (round_half_even x) :: real) < of_int (n + 1)" by simp
  then have "round_half_even x < n + 1" by (simp only: of_int_less_iff)
  then show ?thesis by simp
qed

lemma round_half_even_nonneg:
  assumes "0 \<le> x"
  shows "0 \<le> round_half_even x"
proof -
  have "\<bar>of_int (round_half_even x) - x\<bar> \<le> 1 / 2" by (rule round_half_even_error)
  with assms have "- 1 < (of_int (round_half_even x) :: real)" by linarith
  then have "(of_int (- 1) :: real) < of_int (round_half_even x)" by simp
  then have "- 1 < round_half_even x" by (simp only: of_int_less_iff)
  then show ?thesis by simp
qed

lemma fl_mult_error: "\<bar>fl (fl x * k) - x * k\<bar> \<le> \<bar>x * k\<bar> * 3 / 2 ^ 53"
proof -
  define a where "a = fl x"
  define X where "X = \<bar>x\<bar> * \<bar>k\<bar>"
  have X: "0 \<le> X" by (simp add: X_def)
  have e1: "\<bar>a - x\<bar> \<le> \<bar>x\<bar> / 9007199254740992"
    unfolding a_def using fl_error [of x] by simp
  then have a2: "\<bar>a\<bar> \<le> 2 * \<bar>x\<bar>" by linarith
  have "\<bar>a * k\<bar> = \<bar>a\<bar> * \<bar>k\<bar>" by (rule abs_mult)
  also have "\<dots> \<le> (2 * \<bar>x\<bar>) * \<bar>k\<bar>" using a2 by (rule mult_right_mono) simp
  finally have ak: "\<bar>a * k\<bar> \<le> 2 * X" by (simp add: X_def)
  have "\<bar>fl (a * k) - a * k\<bar> \<le> \<bar>a * k\<bar> / 9007199254740992"
    using fl_error [of "a * k"] by simp
  with ak have e2: "\<bar>fl (a * k) - a * k\<bar> \<le> 2 * X / 9007199254740992" by linarith
  have "a * k - x * k = (a - x) * k" by (simp add: algebra_simps)
  then have "\<bar>a * k - x * k\<bar> = \<bar>a - x\<bar> * \<bar>k\<bar>" by (simp only: abs_mult)
  also have "\<dots> \<le> (\<bar>x\<bar> / 9007199254740992) * \<bar>k\<bar>" using e1 by (rule mult_right_mono) simp
  finally have e3: "\<bar>a * k - x * k\<bar> \<le> X / 9007199254740992" by (simp add: X_def)
  from e2 e3 have "\<bar>fl (a * k) - x * k\<bar> \<le> 3 * X / 9007199254740992" by linarith
  then show ?thesis unfolding a_def X_def by (simp add: abs_mult)
qed

lemma unit_pos: "0 < (1 - 1 / 2 ^ 53 :: real) ^ n" and unit_le_1: "(1 - 1 / 2 ^ 53 :: real) ^ n \<le> 1"
proof -
  have p: "0 < (1 - 1 / 2 ^ 53 :: real)" by simp
  then show "0 < (1 - 1 / 2 ^ 53 :: real) ^ n" by (rule zero_less_power)
  have "(1 - 1 / 2 ^ 53 :: real) \<le> 1" by simp
  with p show "(1 - 1 / 2 ^ 53 :: real) ^ n \<le> 1" by (intro power_le_one) simp_all
qed

lemma close_to_refl: "close_to 0 x x"
  by (simp add: close_to_def)

lemma close_to_nonneg:
  assumes "0 \<le> e" and "close_to n x e"
  shows "0 \<le> x"
proof -
  have "0 \<le> e * (1 - 1 / 2 ^ 53) ^ n"
    using assms(1) unit_pos [of n] by (intro mult_nonneg_nonneg) simp_all
  with assms(2) show ?thesis unfolding close_to_def by linarith
qed

lemma close_to_pos:
  assumes "0 < e" and "close_to n x e"
  shows "0 < x"
proof -
  have "0 < e * (1 - 1 / 2 ^ 53) ^ n"
    using assms(1) unit_pos [of n] by (rule mult_pos_pos)
  with assms(2) show ?thesis unfolding close_to_def by linarith
qed

lemma close_to_fl:
  assumes e: "0 \<le> e" and w: "close_to n x e"
  shows "close_to (Suc n) (fl x) e"
proof -
  define L :: real where "L = 1 - 1 / 2 ^ 53"
  have L: "0 \<le> L" "L \<le> 1" by (simp_all add: L_def)
  have Ln: "0 \<le> L ^ n" using L(1) by (rule zero_le_power)
  from w have lo: "e * L ^ n \<le> x" and hi: "x * L ^ n \<le> e" by (simp_all add: close_to_def L_def)
  have x: "0 \<le> x" by (rule close_to_nonneg [OF e w])
  have "e * L ^ Suc n = (e * L ^ n) * L" by simp
  also have "\<dots> \<le> x * L" using lo L(1) by (rule mult_right_mono)
  also have "\<dots> \<le> fl x" unfolding L_def by (rule fl_lower [OF x])
  finally have 1: "e * L ^ Suc n \<le> fl x" .
  have f: "0 \<le> fl x" by (rule fl_nonneg [OF x])
  have "fl x * L \<le> (x * (1 + 1 / 2 ^ 53)) * L"
    using fl_upper [OF x] L(1) by (rule mult_right_mono)
  also have "\<dots> = x * ((1 + 1 / 2 ^ 53) * L)" by simp
  also have "\<dots> \<le> x * 1" using x by (intro mult_left_mono) (simp_all add: L_def)
  finally have fx: "fl x * L \<le> x" by simp
  have "fl x * L ^ Suc n = (fl x * L) * L ^ n" by simp
  also have "\<dots> \<le> x * L ^ n" using fx Ln by (rule mult_right_mono)
  also have "\<dots> \<le> e" by (rule hi)
  finally have 2: "fl x * L ^ Suc n \<le> e" .
  from 1 2 show ?thesis unfolding close_to_def L_def by simp
qed

lemma close_to_sqrt:
  assumes e: "0 \<le> e" and w: "close_to n x e"
  shows "close_to n (sqrt x) (sqrt e)"
proof -
  define t :: real where "t = (1 - 1 / 2 ^ 53) ^ n"
  have t: "0 \<le> t" "t \<le> 1" unfolding t_def using unit_pos [of n] unit_le_1 [of n] by simp_all
  from w have lo: "e * t \<le> x" and hi: "x * t \<le> e" by (simp_all add: close_to_def t_def)
  have x: "0 \<le> x" by (rule close_to_nonneg [OF e w])
  have "t * t \<le> 1 * t" using t by (intro mult_right_mono) simp_all
  then have "t\<^sup>2 \<le> t" by (simp add: power2_eq_square)
  then have "sqrt (t\<^sup>2) \<le> sqrt t" by (simp only: real_sqrt_le_iff)
  then have ts: "t \<le> sqrt t" using t(1) by simp
  have "sqrt e * t \<le> sqrt e * sqrt t" using ts e by (intro mult_left_mono) simp_all
  also have "\<dots> = sqrt (e * t)" by (simp add: real_sqrt_mult)
  also have "\<dots> \<le> sqrt x" using lo by (simp only: real_sqrt_le_iff)
  finally have 1: "sqrt e * t \<le> sqrt x" .
  have "sqrt x * t \<le> sqrt x * sqrt t" using ts x by (intro mult_left_mono) simp_all
  also have "\<dots> = sqrt (x * t)" by (simp add: real_sqrt_mult)
  also have "\<dots> \<le> sqrt e" using hi by (simp only: real_sqrt_le_iff)
  finally have 2: "sqrt x * t \<le> sqrt e" .
  from 1 2 show ?thesis unfolding close_to_def t_def by simp
qed

lemma close_to_mult:
  assumes e: "0 \<le> e" and f: "0 \<le> f" and wx: "close_to m x e" and wy: "close_to n y f"
  shows "close_to (m + n) (x * y) (e * f)"
proof -
  define L :: real where "L = 1 - 1 / 2 ^ 53"
  have Lm: "0 \<le> L ^ m" and Ln: "0 \<le> L ^ n" by (simp_all add: L_def)
  from wx have xl: "e * L ^ m \<le> x" and xh: "x * L ^ m \<le> e" by (simp_all add: close_to_def L_def)
  from wy have yl: "f * L ^ n \<le> y" and yh: "y * L ^ n \<le> f" by (simp_all add: close_to_def L_def)
  have x: "0 \<le> x" by (rule close_to_nonneg [OF e wx])
  have y: "0 \<le> y" by (rule close_to_nonneg [OF f wy])
  have "(e * f) * L ^ (m + n) = (e * L ^ m) * (f * L ^ n)" by (simp add: power_add)
  also have "\<dots> \<le> x * y"
    using xl yl by (rule mult_mono) (use x f Ln in \<open>simp_all add: mult_nonneg_nonneg\<close>)
  finally have 1: "(e * f) * L ^ (m + n) \<le> x * y" .
  have "(x * y) * L ^ (m + n) = (x * L ^ m) * (y * L ^ n)" by (simp add: power_add)
  also have "\<dots> \<le> e * f"
    using xh yh by (rule mult_mono) (use e y Ln in \<open>simp_all add: mult_nonneg_nonneg\<close>)
  finally have 2: "(x * y) * L ^ (m + n) \<le> e * f" .
  from 1 2 show ?thesis unfolding close_to_def L_def by simp
qed

lemma close_to_inverse:
  assumes f: "0 < f" and wy: "close_to n y f"
  shows "close_to n (1 / y) (1 / f)"
proof -
  define t :: real where "t = (1 - 1 / 2 ^ 53) ^ n"
  from wy have yl: "f * t \<le> y" and yh: "y * t \<le> f" by (simp_all add: close_to_def t_def)
  have y: "0 < y" by (rule close_to_pos [OF f wy])
  have 1: "1 / f * t \<le> 1 / y"
  proof -
    have "1 / f * t = (y * t) / (f * y)" using y by simp
    also have "\<dots> \<le> f / (f * y)" using yh f y by (intro divide_right_mono) simp_all
    also have "\<dots> = 1 / y" using f by simp
    finally show ?thesis .
  qed
  have 2: "1 / y * t \<le> 1 / f"
  proof -
    have "1 / y * t = (f * t) / (y * f)" using f by simp
    also have "\<dots> \<le> y / (y * f)" using yl f y by (intro divide_right_mono) simp_all
    also have "\<dots> = 1 / f" using y by simp
    finally show ?thesis .
  qed
  from 1 2 show ?thesis unfolding close_to_def t_def by simp
qed

lemma close_to_divide:
  assumes e: "0 \<le> e" and f: "0 < f" and wx: "close_to m x e" and wy: "close_to n y f"
  shows "close_to (m + n) (x / y) (e / f)"
proof -
  have "0 \<le> 1 / f" using f by simp
  from close_to_mult [OF e this wx close_to_inverse [OF f wy]] show ?thesis by simp
qed

lemma close_to_scale:
  assumes k: "0 \<le> k" and w: "close_to n x e"
  shows "close_to n (x * k) (e * k)"
proof -
  define t :: real where "t = (1 - 1 / 2 ^ 53) ^ n"
  from w have lo: "e * t \<le> x" and hi: "x * t \<le> e" by (simp_all add: close_to_def t_def)
  have "(e * t) * k \<le> x * k" using lo k by (rule mult_right_mono)
  moreover have "(x * t) * k \<le> e * k" using hi k by (rule mult_right_mono)
  ultimately show ?thesis unfolding close_to_def t_def [symmetric] by (simp add: mult.assoc mult.commute [of t])
qed

lemma unit_8: "1 - 1 / 10 ^ 15 \<le> (1 - 1 / 2 ^ 53 :: real) ^ 8"
  by code_simp

lemma close_to_8:
  assumes e: "0 \<le> e" and w: "close_to 8 x e"
  shows "e * (1 - 1 / 10 ^ 15) \<le> x" and "x * (1 - 1 / 10 ^ 15) \<le> e"
proof -
  have x: "0 \<le> x" by (rule close_to_nonneg [OF e w])
  from w have lo: "e * (1 - 1 / 2 ^ 53) ^ 8 \<le> x" and hi: "x * (1 - 1 / 2 ^ 53) ^ 8 \<le> e"
    by (simp_all add: close_to_def)
  have "e * (1 - 1 / 10 ^ 15) \<le> e * (1 - 1 / 2 ^ 53) ^ 8"
    using unit_8 e by (rule mult_left_mono)
  with lo show "e * (1 - 1 / 10 ^ 15) \<le> x" by linarith
  have "x * (1 - 1 / 10 ^ 15) \<le> x * (1 - 1 / 2 ^ 53) ^ 8"
    using unit_8 x by (rule mult_left_mono)
  with hi show "x * (1 - 1 / 10 ^ 15) \<le> e" by linarith
qed

section \<open>Verified properties: time window\<close>

text \<open>
  C2 (as the code has it).  \<^verbatim>\<open>get_date_filter\<close> maps day, week and month to the lower
  bounds now - 1 day, now - 7 days and now - 30 days, and \<open>all\<close> to no bound.  Every other
  tag takes the last branch as well: the function returns the unbounded window for it
  and raises nothing.
\<close>

theorem get_date_filter_cases:
  "get_date_filter now ''day'' = TimestampGte (now - timedelta_days 1) \<and>
   get_date_filter now ''week'' = TimestampGte (now - timedelta_days 7) \<and>
   get_date_filter now ''month'' = TimestampGte (now - timedelta_days 30) \<and>
   get_date_filter now ''all'' = NoFilter \<and>
   (\<forall>period. period \<noteq> ''day'' \<and> period \<noteq> ''week'' \<and> period \<noteq> ''month'' \<longrightarrow>
      get_date_filter now period = NoFilter)"
  by (simp add: get_date_filter_def timedelta_weeks_def)

theorem get_date_filter_cases_witness:
  "''year'' \<noteq> ''day'' \<and> ''year'' \<noteq> ''week'' \<and> ''year'' \<noteq> ''month'' \<and>
   get_date_filter 0 ''year'' = NoFilter \<and>
   get_date_filter 0 ''week'' = TimestampGte (- 604800000000)"
  using get_date_filter_cases [of 0]
  by (simp add: timedelta_days_def timedelta_seconds_def)

text \<open>
  The claim as the specification words it fails: an unknown tag is not rejected, it is
  resolved to the same window as \<open>all\<close>.
\<close>

theorem get_date_filter_unknown_tag:
  "get_date_filter 0 ''year'' = NoFilter \<and>
   get_date_filter 0 ''year'' = get_date_filter 0 ''all''"
  by (simp add: get_date_filter_def)

section \<open>Verified properties: peak hours\<close>

lemma peak_loop_invariant:
  "foldl (peak_step c) (0, 0) [0..<n] = (bs, b) \<Longrightarrow>
     0 \<le> bs \<and> (\<forall>s<n. window_sum c s \<le> bs) \<and>
     (0 < bs \<longrightarrow> b < n \<and> window_sum c b = bs \<and> (\<forall>s<b. window_sum c s < bs))"
proof (induction n arbitrary: bs b)
  case 0
  then show ?case by simp
next
  case (Suc n)
  obtain bs0 b0 where f: "foldl (peak_step c) (0, 0) [0..<n] = (bs0, b0)"
    by (cases "foldl (peak_step c) (0, 0) [0..<n]") auto
  note IH = Suc.IH [OF f]
  from Suc.prems f have step: "peak_step c (bs0, b0) n = (bs, b)" by simp
  show ?case
  proof (cases "window_sum c n > bs0")
    case True
    with step have "bs = window_sum c n" "b = n" by (auto simp: peak_step_def)
    with IH True show ?thesis by (auto simp: less_Suc_eq)
  next
    case False
    with step have "bs = bs0" "b = b0" by (auto simp: peak_step_def)
    with IH False show ?thesis by (auto simp: less_Suc_eq)
  qed
qed

lemma window_sum_three_hour_sum:
  assumes "s < 24"
  shows "window_sum c s = three_hour_sum c s"
proof -
  have three: "[0..<3] = [0, 1, 2::nat]" by (simp add: upt_rec)
  show ?thesis using assms by (simp add: window_sum_def three_hour_sum_def three)
qed

lemma get_peak_hours_24:
  assumes len: "length ha = 24"
  shows "(max_three_hour_sum (map count_of ha) \<le> 0 \<longrightarrow> get_peak_hours ha = Inr []) \<and>
     (0 < max_three_hour_sum (map count_of ha) \<longrightarrow>
        (\<exists>b<24. three_hour_sum (map count_of ha) b = max_three_hour_sum (map count_of ha) \<and>
           (\<forall>s<b. three_hour_sum (map count_of ha) s < max_three_hour_sum (map count_of ha)) \<and>
           get_peak_hours ha = Inr [b, (b + 1) mod 24, (b + 2) mod 24]))"
proof -
  define c where "c = map count_of ha"
  define M where "M = max_three_hour_sum c"
  obtain bs b where f: "foldl (peak_step c) (0, 0) [0..<24] = (bs, b)"
    by (cases "foldl (peak_step c) (0, 0) [0..<24]") auto
  from peak_loop_invariant [OF f] have nn: "0 \<le> bs" and ub0: "\<forall>s<24. window_sum c s \<le> bs"
    and pos0: "0 < bs \<longrightarrow> b < 24 \<and> window_sum c b = bs \<and> (\<forall>s<b. window_sum c s < bs)"
    by auto
  from ub0 have ub: "\<forall>s<24. three_hour_sum c s \<le> bs"
    by (simp add: window_sum_three_hour_sum)
  have pos: "0 < bs \<longrightarrow> b < 24 \<and> three_hour_sum c b = bs \<and> (\<forall>s<b. three_hour_sum c s < bs)"
  proof
    assume "0 < bs"
    with pos0 have b: "b < 24" "window_sum c b = bs" "\<forall>s<b. window_sum c s < bs" by auto
    from b(1,2) have 1: "three_hour_sum c b = bs" by (simp add: window_sum_three_hour_sum)
    have 2: "\<forall>s<b. three_hour_sum c s < bs"
    proof (intro allI impI)
      fix s assume s: "s < b"
      with b(1) have s24: "s < 24" by simp
      from b(3) s have "window_sum c s < bs" by blast
      then show "three_hour_sum c s < bs" by (simp only: window_sum_three_hour_sum [OF s24])
    qed
    from b(1) 1 2 show "b < 24 \<and> three_hour_sum c b = bs \<and> (\<forall>s<b. three_hour_sum c s < bs)"
      by simp
  qed
  have ne: "ha \<noteq> []" using len by auto
  have three: "[0..<3] = [0, 1, 2::nat]" by (simp add: upt_rec)
  have lc: "length c = 24" using len by (simp add: c_def)
  have gp: "get_peak_hours ha =
      (if bs = 0 then Inr [] else Inr [b mod 24, (b + 1) mod 24, (b + 2) mod 24])"
    using ne f lc by (simp add: get_peak_hours_def c_def [symmetric] Let_def three)
  have Mle: "M \<le> bs"
    unfolding M_def max_three_hour_sum_def using ub by (subst Max_le_iff) auto
  have Mge: "\<And>s. s < 24 \<Longrightarrow> three_hour_sum c s \<le> M"
    unfolding M_def max_three_hour_sum_def by (rule Max_ge) auto
  have 1: "M \<le> 0 \<longrightarrow> get_peak_hours ha = Inr []"
  proof
    assume "M \<le> 0"
    have "bs = 0"
    proof (rule ccontr)
      assume "bs \<noteq> 0"
      with nn have "0 < bs" by simp
      with pos have "b < 24" "three_hour_sum c b = bs" by auto
      with Mge [of b] \<open>M \<le> 0\<close> \<open>0 < bs\<close> show False by simp
    qed
    with gp show "get_peak_hours ha = Inr []" by simp
  qed
  have 2: "0 < M \<longrightarrow> (\<exists>b<24. three_hour_sum c b = M \<and> (\<forall>s<b. three_hour_sum c s < M) \<and>
           get_peak_hours ha = Inr [b, (b + 1) mod 24, (b + 2) mod 24])"
  proof
    assume "0 < M"
    with Mle have bpos: "0 < bs" by simp
    with pos have b: "b < 24" "three_hour_sum c b = bs" "\<forall>s<b. three_hour_sum c s < bs" by auto
    from Mge [OF b(1)] b(2) Mle have "bs = M" by simp
    with b gp bpos show "\<exists>b<24. three_hour_sum c b = M \<and> (\<forall>s<b. three_hour_sum c s < M) \<and>
           get_peak_hours ha = Inr [b, (b + 1) mod 24, (b + 2) mod 24]"
      by (intro exI [of _ b]) auto
  qed
  from 1 2 show ?thesis unfolding M_def c_def by blast
qed

text \<open>
  C4.  The sum of a window is the count of its start hour plus the counts of the next two
  hours, circularly.  On a histogram of 24 bins, \<^verbatim>\<open>get_peak_hours\<close> returns the empty list
  when the greatest window sum is 0 (or less: that needs a negative bin), and otherwise
  the three hours \<open>b\<close>, \<open>b + 1\<close>, \<open>b + 2\<close> modulo 24 of the least start hour \<open>b\<close> whose window
  sum is the greatest.  On the histogram with 10 at the hours 23, 0 and 1 it returns
  \<open>[23, 0, 1]\<close>; with 10 at the hour 5 alone it returns \<open>[3, 4, 5]\<close>, the first of the three
  windows that hold the hour 5; with 6 at the hour 0 and 4 at the hours 10 and 11 it
  returns \<open>[9, 10, 11]\<close>, a window of sum 8.
\<close>

theorem get_peak_hours_max_window:
  "(\<forall>ha. length ha = 24 \<longrightarrow>
      (max_three_hour_sum (map count_of ha) \<le> 0 \<longrightarrow> get_peak_hours ha = Inr []) \<and>
      (0 < max_three_hour_sum (map count_of ha) \<longrightarrow>
         (\<exists>b<24. three_hour_sum (map count_of ha) b = max_three_hour_sum (map count_of ha) \<and>
            (\<forall>s<b. three_hour_sum (map count_of ha) s < max_three_hour_sum (map count_of ha)) \<and>
            get_peak_hours ha = Inr [b, (b + 1) mod 24, (b + 2) mod 24]))) \<and>
   get_peak_hours wrap_histogram = Inr [23, 0, 1] \<and>
   get_peak_hours lone_hour_histogram = Inr [3, 4, 5] \<and>
   get_peak_hours pair_histogram = Inr [9, 10, 11]"
proof (intro conjI allI impI)
  show "get_peak_hours wrap_histogram = Inr [23, 0, 1]"
    by code_simp
  show "get_peak_hours lone_hour_histogram = Inr [3, 4, 5]"
    by code_simp
  show "get_peak_hours pair_histogram = Inr [9, 10, 11]"
    by code_simp
qed (use get_peak_hours_24 in blast)+

theorem get_peak_hours_max_window_witness:
  "length wrap_histogram = 24 \<and>
   max_three_hour_sum (map count_of wrap_histogram) = 30 \<and>
   three_hour_sum (map count_of wrap_histogram) 23 = 30 \<and>
   three_hour_sum (map count_of wrap_histogram) 22 = 20 \<and>
   (\<exists>b<24. three_hour_sum (map count_of wrap_histogram) b =
              max_three_hour_sum (map count_of wrap_histogram) \<and>
      get_peak_hours wrap_histogram = Inr [b, (b + 1) mod 24, (b + 2) mod 24]) \<and>
   length (replicate 24 \<lparr>hour_of = 0, count_of = 0\<rparr>) = 24 \<and>
   max_three_hour_sum (map count_of (replicate 24 \<lparr>hour_of = 0, count_of = 0\<rparr>)) \<le> 0 \<and>
   get_peak_hours (replicate 24 \<lparr>hour_of = 0, count_of = 0\<rparr>) = Inr []"
proof -
  have l1: "length wrap_histogram = 24"
    by (simp add: wrap_histogram_def)
  have m1: "max_three_hour_sum (map count_of wrap_histogram) = 30"
    unfolding max_three_hour_sum_def by code_simp
  have t1: "three_hour_sum (map count_of wrap_histogram) 23 = 30"
    "three_hour_sum (map count_of wrap_histogram) 22 = 20"
    by code_simp+
  have l2: "length (replicate 24 \<lparr>hour_of = 0, count_of = 0\<rparr>) = 24"
    by simp
  have m2: "max_three_hour_sum (map count_of (replicate 24 \<lparr>hour_of = 0, count_of = 0\<rparr>)) \<le> 0"
    unfolding max_three_hour_sum_def by code_simp
  from m1 have p1: "0 < max_three_hour_sum (map count_of wrap_histogram)" by simp
  from get_peak_hours_max_window l1 p1 l2 m2
  have "(\<exists>b<24. three_hour_sum (map count_of wrap_histogram) b =
              max_three_hour_sum (map count_of wrap_histogram) \<and>
      get_peak_hours wrap_histogram = Inr [b, (b + 1) mod 24, (b + 2) mod 24]) \<and>
    get_peak_hours (replicate 24 \<lparr>hour_of = 0, count_of = 0\<rparr>) = Inr []"
    by blast
  with l1 m1 t1 l2 m2 show ?thesis by blast
qed

section \<open>Verified properties: the query stages\<close>

lemma set_first_keys: "set (first_keys ks) = set ks"
  by (simp add: first_keys_def)

lemma distinct_first_keys: "distinct (first_keys ks)"
  by (simp add: first_keys_def)

lemma fst_group_by: "map fst (group_by key docs) = first_keys (map key docs)"
  by (simp add: group_by_def comp_def)

lemma group_by_mem:
  "(k, ds) \<in> set (group_by key docs) \<longleftrightarrow> k \<in> key ` set docs \<and> ds = filter (\<lambda>d. key d = k) docs"
  by (auto simp: group_by_def set_first_keys)

lemma group_nonempty: "(k, ds) \<in> set (group_by key docs) \<Longrightarrow> ds \<noteq> []"
  by (auto simp: group_by_mem filter_empty_conv)

lemma set_sort_desc: "set (sort_desc key xs) = set xs"
  by (simp add: sort_desc_def)

lemma length_sort_desc: "length (sort_desc key xs) = length xs"
  by (simp add: sort_desc_def)

lemma distinct_map_sort_desc:
  "distinct (map f (sort_desc key xs)) = distinct (map f xs)"
proof -
  have "mset (map f (sort_desc key xs)) = mset (map f xs)"
    by (simp add: sort_desc_def)
  then show ?thesis by (metis distinct_count_atmost_1 set_mset_mset)
qed

lemma sort_desc_sorted: "sorted (map (\<lambda>x. - key x) (sort_desc key xs))"
  by (simp add: sort_desc_def)

lemma user_counts_alt:
  "user_counts matches db = take MAX_USERS_QUERY (sort_desc snd (grouped_counts matches db))"
  by (simp add: user_counts_def grouped_counts_def)

lemma fst_grouped_counts:
  "map fst (grouped_counts matches db) = first_keys (map username (filter matches db))"
  by (simp add: grouped_counts_def group_by_def comp_def)

lemma grouped_counts_mem:
  "(u, c) \<in> set (grouped_counts matches db) \<longleftrightarrow>
     u \<in> username ` {m \<in> set db. matches m} \<and> c = message_count matches db u"
proof -
  have eq: "\<And>u. filter (\<lambda>d. username d = u) (filter matches db) = filter (\<lambda>m. matches m \<and> username m = u) db"
    by (simp add: conj_commute)
  show ?thesis
    by (auto simp: grouped_counts_def group_by_def set_first_keys message_count_def eq image_iff)
qed

lemma user_counts_distinct: "distinct (map fst (user_counts matches db))"
proof -
  have "distinct (map fst (sort_desc snd (grouped_counts matches db)))"
    by (simp add: distinct_map_sort_desc fst_grouped_counts distinct_first_keys)
  then show ?thesis
    unfolding user_counts_alt by (simp add: take_map [symmetric] distinct_take)
qed

lemma user_counts_length: "length (user_counts matches db) \<le> 1000"
  by (simp add: user_counts_def MAX_USERS_QUERY_def)

lemma user_counts_mem:
  assumes "(u, c) \<in> set (user_counts matches db)"
  shows "u \<in> username ` {m \<in> set db. matches m}" and "c = message_count matches db u"
proof -
  from assms have "(u, c) \<in> set (sort_desc snd (grouped_counts matches db))"
    unfolding user_counts_alt by (rule in_set_takeD)
  then have "(u, c) \<in> set (grouped_counts matches db)" by (simp add: set_sort_desc)
  then show "u \<in> username ` {m \<in> set db. matches m}" and "c = message_count matches db u"
    by (simp_all add: grouped_counts_mem)
qed

lemma message_count_pos:
  "u \<in> username ` {m \<in> set db. matches m} \<Longrightarrow> 0 < message_count matches db u"
  by (auto simp: message_count_def filter_empty_conv)

lemma user_counts_map_of:
  "map_of (user_counts matches db) u = Some c \<longleftrightarrow> (u, c) \<in> set (user_counts matches db)"
  using user_counts_distinct by (rule map_of_eq_Some_iff)

lemma user_counts_all:
  assumes "card (username ` {m \<in> set db. matches m}) \<le> 1000"
  shows "fst ` set (user_counts matches db) = username ` {m \<in> set db. matches m}"
proof -
  have "length (grouped_counts matches db) = card (username ` {m \<in> set db. matches m})"
  proof -
    have "length (grouped_counts matches db) = length (first_keys (map username (filter matches db)))"
      by (metis fst_grouped_counts length_map)
    also have "\<dots> = card (set (first_keys (map username (filter matches db))))"
      by (simp add: distinct_card distinct_first_keys)
    also have "set (first_keys (map username (filter matches db))) = username ` {m \<in> set db. matches m}"
      by (auto simp: set_first_keys)
    finally show ?thesis .
  qed
  with assms have "user_counts matches db = sort_desc snd (grouped_counts matches db)"
    unfolding user_counts_alt by (simp add: MAX_USERS_QUERY_def length_sort_desc)
  then have "set (user_counts matches db) = set (grouped_counts matches db)"
    by (simp add: set_sort_desc)
  moreover have "fst ` set (grouped_counts matches db) = username ` {m \<in> set db. matches m}"
    using set_map [of fst "grouped_counts matches db"]
    by (auto simp: fst_grouped_counts set_first_keys)
  ultimately show ?thesis by simp
qed

section \<open>Verified properties: percentile\<close>

lemma below_count_card:
  assumes d: "distinct (map fst T)"
    and c: "\<And>a k. (a, k) \<in> set T \<Longrightarrow> k = f a"
  shows "length (filter (\<lambda>e. snd e < x) T) = card {a \<in> fst ` set T. f a < x}"
proof -
  from d have dT: "distinct T" by (simp add: distinct_map)
  from d have inj: "inj_on fst (set T)" by (simp add: distinct_map)
  have "length (filter (\<lambda>e. snd e < x) T) = card (set (filter (\<lambda>e. snd e < x) T))"
    using dT by (simp only: distinct_card distinct_filter)
  also have "\<dots> = card (fst ` set (filter (\<lambda>e. snd e < x) T))"
    by (rule card_image [symmetric]) (rule inj_on_subset [OF inj], auto)
  also have "fst ` set (filter (\<lambda>e. snd e < x) T) = {a \<in> fst ` set T. f a < x}"
    using c by (auto simp: image_iff)
  finally show ?thesis .
qed

lemma percentile_present:
  assumes "(u, c) \<in> set (user_counts W db)" and u: "u = lower uname"
    and W: "W = in_window (get_date_filter now period)"
  shows "get_user_percentile db now uname period =
     fl (fl (real (card {a \<in> fst ` set (user_counts W db). message_count W db a < message_count W db u})
               / real (length (user_counts W db))) * 100)"
proof -
  let ?T = "user_counts W db"
  from assms(1) have ne: "?T \<noteq> []" by auto
  from assms(1) have mo: "map_of ?T u = Some c" by (simp add: user_counts_map_of)
  from user_counts_mem [OF assms(1)] have c: "c = message_count W db u" and "0 < c"
    by (auto simp: message_count_pos)
  have bc: "length (filter (\<lambda>e. snd e < c) ?T) = card {a \<in> fst ` set ?T. message_count W db a < c}"
    by (rule below_count_card [OF user_counts_distinct]) (rule user_counts_mem(2))
  from ne have "0 < length ?T" by simp
  with ne mo \<open>0 < c\<close> bc show ?thesis
    unfolding get_user_percentile_def W [symmetric] u [symmetric] c [symmetric]
    by (simp add: Let_def)
qed

lemma percentile_absent:
  assumes "u \<notin> fst ` set (user_counts W db)" and u: "u = lower uname"
    and W: "W = in_window (get_date_filter now period)"
  shows "get_user_percentile db now uname period = 0"
proof -
  from assms(1) have "map_of (user_counts W db) u = None"
    by (simp add: map_of_eq_None_iff)
  then show ?thesis
    unfolding get_user_percentile_def W [symmetric] u [symmetric] by (simp add: Let_def)
qed

text \<open>
  C6.  The table \<open>user_counts\<close> of the window holds at most 1000 actors, each an actor
  with a message in the window (all of them when there are at most 1000).  For a
  subject in the table, \<^verbatim>\<open>get_user_percentile\<close> is the number of actors of the table with
  strictly fewer messages in the window than the subject, divided by the length of the
  table, times 100: the quotient and the product as the floating-point division and
  multiplication give them, which is the exact value up to the fraction \<open>3 / 2 ^ 53\<close> of
  it.  It is 0 for a subject outside the table, so for one with no message in the window,
  and 0 for the only actor of the window.
\<close>

theorem get_user_percentile_spec:
  "length (user_counts (in_window (get_date_filter now period)) db) \<le> 1000 \<and>
   fst ` set (user_counts (in_window (get_date_filter now period)) db)
     \<subseteq> username ` {m \<in> set db. in_window (get_date_filter now period) m} \<and>
   (card (username ` {m \<in> set db. in_window (get_date_filter now period) m}) \<le> 1000 \<longrightarrow>
      fst ` set (user_counts (in_window (get_date_filter now period)) db)
        = username ` {m \<in> set db. in_window (get_date_filter now period) m}) \<and>
   (lower uname \<in> fst ` set (user_counts (in_window (get_date_filter now period)) db) \<longrightarrow>
      get_user_percentile db now uname period =
        fl (fl (real (card {a \<in> fst ` set (user_counts (in_window (get_date_filter now period)) db).
                     message_count (in_window (get_date_filter now period)) db a
                       < message_count (in_window (get_date_filter now period)) db (lower uname)})
                / real (length (user_counts (in_window (get_date_filter now period)) db))) * 100) \<and>
      \<bar>get_user_percentile db now uname period -
        real (card {a \<in> fst ` set (user_counts (in_window (get_date_filter now period)) db).
                     message_count (in_window (get_date_filter now period)) db a
                       < message_count (in_window (get_date_filter now period)) db (lower uname)})
          / real (length (user_counts (in_window (get_date_filter now period)) db)) * 100\<bar>
        \<le> real (card {a \<in> fst ` set (user_counts (in_window (get_date_filter now period)) db).
                     message_count (in_window (get_date_filter now period)) db a
                       < message_count (in_window (get_date_filter now period)) db (lower uname)})
          / real (length (user_counts (in_window (get_date_filter now period)) db)) * 100 * 3 / 2 ^ 53) \<and>
   (lower uname \<notin> fst ` set (user_counts (in_window (get_date_filter now period)) db) \<longrightarrow>
      get_user_percentile db now uname period = 0) \<and>
   (message_count (in_window (get_date_filter now period)) db (lower uname) = 0 \<longrightarrow>
      get_user_percentile db now uname period = 0) \<and>
   ((\<exists>m \<in> set db. in_window (get_date_filter now period) m) \<and>
    (\<forall>m \<in> set db. in_window (get_date_filter now period) m \<longrightarrow> username m = lower uname) \<longrightarrow>
      get_user_percentile db now uname period = 0)"
proof -
  define W where "W = in_window (get_date_filter now period)"
  define T where "T = user_counts W db"
  define u where "u = lower uname"
  have 1: "length T \<le> 1000" unfolding T_def by (rule user_counts_length)
  have 2: "fst ` set T \<subseteq> username ` {m \<in> set db. W m}"
    unfolding T_def using user_counts_mem(1) by fastforce
  have 3: "card (username ` {m \<in> set db. W m}) \<le> 1000 \<longrightarrow>
      fst ` set T = username ` {m \<in> set db. W m}"
    unfolding T_def using user_counts_all by blast
  define q where
    "q = real (card {a \<in> fst ` set T. message_count W db a < message_count W db u}) / real (length T)"
  have q: "0 \<le> q" unfolding q_def by simp
  have 4: "u \<in> fst ` set T \<longrightarrow> get_user_percentile db now uname period = fl (fl q * 100) \<and>
      \<bar>get_user_percentile db now uname period - q * 100\<bar> \<le> q * 100 * 3 / 2 ^ 53"
  proof
    assume "u \<in> fst ` set T"
    then obtain c where "(u, c) \<in> set (user_counts W db)" unfolding T_def by force
    from percentile_present [OF this u_def W_def]
    have e: "get_user_percentile db now uname period = fl (fl q * 100)"
      unfolding T_def q_def .
    have "\<bar>fl (fl q * 100) - q * 100\<bar> \<le> \<bar>q * 100\<bar> * 3 / 2 ^ 53" by (rule fl_mult_error)
    with q have "\<bar>fl (fl q * 100) - q * 100\<bar> \<le> q * 100 * 3 / 2 ^ 53" by simp
    with e show "get_user_percentile db now uname period = fl (fl q * 100) \<and>
      \<bar>get_user_percentile db now uname period - q * 100\<bar> \<le> q * 100 * 3 / 2 ^ 53" by simp
  qed
  have 5: "u \<notin> fst ` set T \<longrightarrow> get_user_percentile db now uname period = 0"
    unfolding T_def using percentile_absent [OF _ u_def W_def] by blast
  have 6: "message_count W db u = 0 \<longrightarrow> get_user_percentile db now uname period = 0"
  proof
    assume z: "message_count W db u = 0"
    have "u \<notin> fst ` set T"
    proof
      assume "u \<in> fst ` set T"
      with 2 have "u \<in> username ` {m \<in> set db. W m}" by blast
      from message_count_pos [OF this] z show False by simp
    qed
    with 5 show "get_user_percentile db now uname period = 0" by blast
  qed
  have 7: "(\<exists>m \<in> set db. W m) \<and> (\<forall>m \<in> set db. W m \<longrightarrow> username m = u) \<longrightarrow>
      get_user_percentile db now uname period = 0"
  proof
    assume a: "(\<exists>m \<in> set db. W m) \<and> (\<forall>m \<in> set db. W m \<longrightarrow> username m = u)"
    then have s: "username ` {m \<in> set db. W m} = {u}" by auto
    with 3 have f: "fst ` set T = {u}" by simp
    then have "{a \<in> fst ` set T. message_count W db a < message_count W db u} = {}" by auto
    then have "q = 0" unfolding q_def by simp
    with 4 f show "get_user_percentile db now uname period = 0" by (simp add: fl_0)
  qed
  from 1 2 3 4 5 6 7 show ?thesis unfolding q_def T_def W_def u_def by blast
qed

text \<open>The definitions an example over a concrete store unfolds.\<close>

lemmas example_defs = user_counts_def group_by_def first_keys_def sort_desc_def chat_def lower_def
  lower_char_def get_date_filter_def MAX_USERS_QUERY_def message_count_def

theorem get_user_percentile_spec_witness:
  "lower ''Ana'' \<in> fst ` set (user_counts (in_window (get_date_filter 0 ''all''))
                                 [chat ''bob'' 1 3, chat ''ana'' 2 3, chat ''ana'' 5 4]) \<and>
   get_user_percentile [chat ''bob'' 1 3, chat ''ana'' 2 3, chat ''ana'' 5 4] 0 ''Ana'' ''all'' = 50 \<and>
   (\<exists>m \<in> set [chat ''ana'' 2 3]. in_window (get_date_filter 0 ''all'') m) \<and>
   get_user_percentile [chat ''ana'' 2 3] 0 ''Ana'' ''all'' = 0"
proof -
  let ?db = "[chat ''bob'' 1 3, chat ''ana'' 2 3, chat ''ana'' 5 4]"
  let ?W = "in_window (get_date_filter 0 ''all'')"
  have T: "user_counts ?W ?db = [(''ana'', 2), (''bob'', 1)]"
    by (simp add: example_defs)
  have l: "lower ''Ana'' = ''ana''" by (simp add: example_defs)
  have mem: "lower ''Ana'' \<in> fst ` set (user_counts ?W ?db)"
    unfolding T l by simp
  have mc: "message_count ?W ?db ''ana'' = 2" "message_count ?W ?db ''bob'' = 1"
    by (simp_all add: example_defs)
  have set: "{a \<in> fst ` set [(''ana'', 2::int), (''bob'', 1)].
                message_count ?W ?db a < message_count ?W ?db ''ana''} = {''bob''}"
    using mc by auto
  have h: "fl (fl (1 / 2) * 100) = 50" by code_simp
  have p1: "get_user_percentile ?db 0 ''Ana'' ''all'' = 50"
    using get_user_percentile_spec [of 0 "''all''" ?db "''Ana''"] mem
    unfolding T l set by (simp add: h)
  have h2: "(\<exists>m \<in> set [chat ''ana'' 2 3]. ?W m) \<and>
            (\<forall>m \<in> set [chat ''ana'' 2 3]. ?W m \<longrightarrow> username m = lower ''Ana'')"
    by (simp add: example_defs)
  have p2: "get_user_percentile [chat ''ana'' 2 3] 0 ''Ana'' ''all'' = 0"
    using get_user_percentile_spec [of 0 "''all''" "[chat ''ana'' 2 3]" "''Ana''"] h2 by blast
  from mem p1 h2 p2 show ?thesis by blast
qed

section \<open>Verified properties: rank change\<close>

lemma rank_of_None: "rank_of i name users = None \<longleftrightarrow> name \<notin> set users"
  by (induction users arbitrary: i) auto

lemma rank_of_Some:
  "rank_of i name users = Some r \<longleftrightarrow>
     (\<exists>k<length users. users ! k = name \<and> name \<notin> set (take k users) \<and> r = i + k + 1)"
proof (induction users arbitrary: i)
  case Nil
  then show ?case by simp
next
  case (Cons a users)
  show ?case
  proof (cases "a = name")
    case True
    have "(\<exists>k<length (a # users). (a # users) ! k = name \<and> name \<notin> set (take k (a # users)) \<and> r = i + k + 1)
        \<longleftrightarrow> r = i + 1"
    proof
      assume "\<exists>k<length (a # users). (a # users) ! k = name \<and> name \<notin> set (take k (a # users)) \<and> r = i + k + 1"
      then obtain k where k: "name \<notin> set (take k (a # users))" "r = i + k + 1" by blast
      from k(1) True have "k = 0" by (cases k) auto
      with k show "r = i + 1" by simp
    next
      assume "r = i + 1"
      with True show "\<exists>k<length (a # users). (a # users) ! k = name \<and> name \<notin> set (take k (a # users)) \<and> r = i + k + 1"
        by (intro exI [of _ 0]) simp
    qed
    with True show ?thesis by auto
  next
    case False
    have "(\<exists>k<length (a # users). (a # users) ! k = name \<and> name \<notin> set (take k (a # users)) \<and> r = i + k + 1)
        \<longleftrightarrow> (\<exists>k<length users. users ! k = name \<and> name \<notin> set (take k users) \<and> r = (i + 1) + k + 1)"
    proof
      assume "\<exists>k<length (a # users). (a # users) ! k = name \<and> name \<notin> set (take k (a # users)) \<and> r = i + k + 1"
      then obtain k where k: "k < length (a # users)" "(a # users) ! k = name"
        "name \<notin> set (take k (a # users))" "r = i + k + 1" by blast
      from k(2) False obtain j where j: "k = Suc j" by (cases k) auto
      with k show "\<exists>k<length users. users ! k = name \<and> name \<notin> set (take k users) \<and> r = (i + 1) + k + 1"
        by (intro exI [of _ j]) auto
    next
      assume "\<exists>k<length users. users ! k = name \<and> name \<notin> set (take k users) \<and> r = (i + 1) + k + 1"
      then obtain k where k: "k < length users" "users ! k = name"
        "name \<notin> set (take k users)" "r = (i + 1) + k + 1" by blast
      with False show "\<exists>k<length (a # users). (a # users) ! k = name \<and> name \<notin> set (take k (a # users)) \<and> r = i + k + 1"
        by (intro exI [of _ "Suc k"]) auto
    qed
    with False Cons.IH [of "i + 1"] show ?thesis by simp
  qed
qed

lemma rankings_top_rank:
  "top_rank (get_user_rankings db now uname period) =
     rank_of 0 (lower uname) (ranked (in_window (get_date_filter now period)) db)"
  by (simp add: get_user_rankings_def Let_def ranked_def)

lemma rankings_top_rank_change:
  "top_rank_change (get_user_rankings db now uname period) =
     (case rank_of 0 (lower uname) (ranked (in_window (get_date_filter now period)) db) of
        None \<Rightarrow> None
      | Some tr \<Rightarrow>
          (case rank_of 0 (lower uname) (ranked (prior_week now) db) of
             None \<Rightarrow> None
           | Some pr \<Rightarrow> Some (int pr - int tr)))"
proof -
  have "prior_week now = (\<lambda>m. now - timedelta_days 14 \<le> timestamp m \<and> timestamp m < now - timedelta_days 7)"
    by (rule ext) (simp add: prior_week_def)
  then show ?thesis
    by (simp add: get_user_rankings_def Let_def ranked_def split: option.splits)
qed

lemma week_is_latest_week: "in_window (get_date_filter now ''week'') = latest_week now"
  by (rule ext) (simp add: get_date_filter_def latest_week_def timedelta_weeks_def)

text \<open>
  C3 (as the code has it).  \<open>top_rank\<close> is the actor's rank in the table of the requested
  period.  \<open>top_rank_change\<close> is the actor's rank in the table of the prior week (days 14
  to 7 ago) minus \<open>top_rank\<close>, so it is positive exactly when the rank number decreased;
  it is absent when the actor is missing from the table of the requested period or from
  the table of the prior week.  A rank is the 1-based position of the actor in the
  table, absent when the actor is not in it.  The table of the requested period is the
  table of the latest week when the period is \<open>week\<close>.
\<close>

theorem rank_change_spec:
  "top_rank (get_user_rankings db now uname period) =
     rank_of 0 (lower uname) (ranked (in_window (get_date_filter now period)) db) \<and>
   (lower uname \<notin> set (ranked (in_window (get_date_filter now period)) db) \<or>
    lower uname \<notin> set (ranked (prior_week now) db) \<longrightarrow>
      top_rank_change (get_user_rankings db now uname period) = None) \<and>
   (\<forall>tr pr. rank_of 0 (lower uname) (ranked (in_window (get_date_filter now period)) db) = Some tr \<and>
            rank_of 0 (lower uname) (ranked (prior_week now) db) = Some pr \<longrightarrow>
      top_rank_change (get_user_rankings db now uname period) = Some (int pr - int tr) \<and>
      (0 < int pr - int tr \<longleftrightarrow> tr < pr)) \<and>
   (\<forall>names r. rank_of 0 (lower uname) names = Some r \<longleftrightarrow>
      (\<exists>k<length names. names ! k = lower uname \<and> lower uname \<notin> set (take k names) \<and> r = k + 1)) \<and>
   (\<forall>names. rank_of 0 (lower uname) names = None \<longleftrightarrow> lower uname \<notin> set names) \<and>
   ranked (in_window (get_date_filter now ''week'')) db = ranked (latest_week now) db"
proof (intro conjI allI impI)
  show "top_rank (get_user_rankings db now uname period) =
     rank_of 0 (lower uname) (ranked (in_window (get_date_filter now period)) db)"
    by (rule rankings_top_rank)
next
  assume "lower uname \<notin> set (ranked (in_window (get_date_filter now period)) db) \<or>
    lower uname \<notin> set (ranked (prior_week now) db)"
  then have "rank_of 0 (lower uname) (ranked (in_window (get_date_filter now period)) db) = None \<or>
     rank_of 0 (lower uname) (ranked (prior_week now) db) = None"
    by (simp add: rank_of_None)
  then show "top_rank_change (get_user_rankings db now uname period) = None"
    by (auto simp: rankings_top_rank_change split: option.splits)
next
  fix tr pr
  assume "rank_of 0 (lower uname) (ranked (in_window (get_date_filter now period)) db) = Some tr \<and>
            rank_of 0 (lower uname) (ranked (prior_week now) db) = Some pr"
  then show "top_rank_change (get_user_rankings db now uname period) = Some (int pr - int tr)"
    by (simp add: rankings_top_rank_change)
next
  fix tr pr :: nat
  show "(0 < int pr - int tr) = (tr < pr)" by auto
next
  fix names r
  show "rank_of 0 (lower uname) names = Some r \<longleftrightarrow>
      (\<exists>k<length names. names ! k = lower uname \<and> lower uname \<notin> set (take k names) \<and> r = k + 1)"
    using rank_of_Some [of 0 "lower uname" names r] by simp
next
  fix names
  show "rank_of 0 (lower uname) names = None \<longleftrightarrow> lower uname \<notin> set names"
    by (rule rank_of_None)
next
  show "ranked (in_window (get_date_filter now ''week'')) db = ranked (latest_week now) db"
    by (simp add: week_is_latest_week)
qed

theorem rank_change_spec_witness:
  "rank_of 0 (lower ''Ana'') (ranked (in_window (get_date_filter (timedelta_days 22) ''week'')) two_weeks)
     = Some 1 \<and>
   rank_of 0 (lower ''Ana'') (ranked (prior_week (timedelta_days 22)) two_weeks) = Some 2 \<and>
   top_rank_change (get_user_rankings two_weeks (timedelta_days 22) ''Ana'' ''week'') = Some 1 \<and>
   lower ''Zed'' \<notin> set (ranked (prior_week (timedelta_days 22)) two_weeks) \<and>
   top_rank_change (get_user_rankings two_weeks (timedelta_days 22) ''Zed'' ''week'') = None"
proof -
  have cur: "rank_of 0 (lower ''Ana'')
      (ranked (in_window (get_date_filter (timedelta_days 22) ''week'')) two_weeks) = Some 1"
    by (simp add: ranked_def two_weeks_def timedelta_days_def timedelta_weeks_def
        timedelta_seconds_def example_defs)
  have prev: "rank_of 0 (lower ''Ana'') (ranked (prior_week (timedelta_days 22)) two_weeks) = Some 2"
    by (simp add: ranked_def prior_week_def two_weeks_def timedelta_days_def
        timedelta_seconds_def example_defs)
  have zed: "lower ''Zed'' \<notin> set (ranked (prior_week (timedelta_days 22)) two_weeks)"
    by (simp add: ranked_def prior_week_def two_weeks_def timedelta_days_def
        timedelta_seconds_def example_defs)
  from rank_change_spec [of two_weeks "timedelta_days 22" "''Ana''" "''week''"] cur prev
  have a: "top_rank_change (get_user_rankings two_weeks (timedelta_days 22) ''Ana'' ''week'') = Some 1"
    by simp
  from rank_change_spec [of two_weeks "timedelta_days 22" "''Zed''" "''week''"] zed
  have z: "top_rank_change (get_user_rankings two_weeks (timedelta_days 22) ''Zed'' ''week'') = None"
    by blast
  from cur prev a zed z show ?thesis by blast
qed

text \<open>
  The claim as the specification words it fails for a period other than \<open>week\<close>: an actor
  whose only message is 10 days old has no rank in the latest week, and yet a rank change
  (of 0) for the period \<open>all\<close>.
\<close>

theorem rank_change_outside_latest_week:
  "ranked (latest_week (timedelta_days 22)) old_only = [] \<and>
   rank_of 0 (lower ''ana'') (ranked (latest_week (timedelta_days 22)) old_only) = None \<and>
   top_rank_change (get_user_rankings old_only (timedelta_days 22) ''ana'' ''all'') = Some 0"
  by (simp add: rankings_top_rank_change ranked_def latest_week_def prior_week_def old_only_def
      timedelta_days_def timedelta_seconds_def example_defs)

section \<open>Verified properties: emote cache\<close>






section \<open>Verified properties: growth\<close>

lemma growth_data_entries:
  assumes "e \<in> set (growth_data db now)"
  shows "g_username e \<in> username ` {m \<in> set db. latest_week now m}"
    and "g_current_count e = message_count (latest_week now) db (g_username e)"
    and "g_previous_count e = message_count (prior_week now) db (g_username e)"
    and "g_growth_percent e = growth_of (g_current_count e) (g_previous_count e)"
proof -
  define cur where "cur = filter (\<lambda>m. now - timedelta_days 7 \<le> timestamp m) db"
  define prv where "prv = filter (\<lambda>m. now - timedelta_days 14 \<le> timestamp m \<and> timestamp m < now - timedelta_days 7) db"
  define previous where "previous = map (\<lambda>(u, ms). (u, int (length ms))) (group_by username prv)"
  have prev_eq: "previous = grouped_counts (prior_week now) db"
    unfolding previous_def grouped_counts_def prv_def prior_week_def ..
  have lookup: "\<And>u. (case map_of previous u of Some c \<Rightarrow> c | None \<Rightarrow> 0) = message_count (prior_week now) db u"
  proof -
    fix u
    have d: "distinct (map fst previous)"
      unfolding prev_eq by (simp add: fst_grouped_counts distinct_first_keys)
    show "(case map_of previous u of Some c \<Rightarrow> c | None \<Rightarrow> 0) = message_count (prior_week now) db u"
    proof (cases "map_of previous u")
      case None
      then have "u \<notin> fst ` set previous" by (simp add: map_of_eq_None_iff)
      then have "u \<notin> username ` {m \<in> set db. prior_week now m}"
        unfolding prev_eq using set_map [of fst "grouped_counts (prior_week now) db"]
        by (simp add: fst_grouped_counts set_first_keys) 
      then have "message_count (prior_week now) db u = 0"
        by (auto simp: message_count_def filter_empty_conv)
      with None show ?thesis by simp
    next
      case (Some c)
      then have "(u, c) \<in> set previous" by (rule map_of_SomeD)
      then have "c = message_count (prior_week now) db u"
        unfolding prev_eq by (simp add: grouped_counts_mem)
      with Some show ?thesis by simp
    qed
  qed
  from assms obtain u ms where ums: "(u, ms) \<in> set (group_by username cur)"
    and e: "e = \<lparr>g_username = u, g_display_name = display_name (last ms), g_current_count = int (length ms),
         g_previous_count = (case map_of previous u of Some c \<Rightarrow> c | None \<Rightarrow> 0),
         g_growth_percent = growth_of (int (length ms)) (case map_of previous u of Some c \<Rightarrow> c | None \<Rightarrow> 0)\<rparr>"
    unfolding growth_data_def cur_def [symmetric] prv_def [symmetric] Let_def previous_def [symmetric]
    by (auto simp: set_sort_desc)
  from ums have u: "u \<in> username ` set cur" and ms: "ms = filter (\<lambda>d. username d = u) cur"
    by (simp_all add: group_by_mem)
  from u show "g_username e \<in> username ` {m \<in> set db. latest_week now m}"
    by (auto simp: e cur_def latest_week_def)
  have "int (length ms) = message_count (latest_week now) db u"
    unfolding ms cur_def message_count_def latest_week_def by (simp add: conj_commute)
  then show "g_current_count e = message_count (latest_week now) db (g_username e)"
    by (simp add: e)
  show "g_previous_count e = message_count (prior_week now) db (g_username e)"
    by (simp add: e lookup)
  show "g_growth_percent e = growth_of (g_current_count e) (g_previous_count e)"
    by (simp add: e)
qed

lemma round1_spec:
  "\<exists>k. round1 x = fl (of_int k / 10) \<and> \<bar>x * 10 - of_int k\<bar> \<le> 1 / 2 \<and>
       (\<bar>x * 10 - of_int k\<bar> = 1 / 2 \<longrightarrow> even k)"
proof (intro exI conjI impI)
  show "round1 x = fl (of_int (round_half_even (x * 10)) / 10)" by (simp only: round1_def)
  have "\<bar>of_int (round_half_even (x * 10)) - x * 10\<bar> \<le> 1 / 2" by (rule round_half_even_error)
  then show "\<bar>x * 10 - of_int (round_half_even (x * 10))\<bar> \<le> 1 / 2"
    by (simp only: abs_minus_commute)
  show "even (round_half_even (x * 10))"
    if "\<bar>x * 10 - of_int (round_half_even (x * 10))\<bar> = 1 / 2"
    using that by (rule round_half_even_tie)
qed

lemma growth_of_error:
  "\<bar>growth_of c p - growth_formula c p\<bar> \<le> \<bar>growth_formula c p\<bar> * 3 / 2 ^ 53"
proof (cases "p = 0")
  case True
  then have g: "growth_of c p = fl (fl (of_int c) * 10)" "growth_formula c p = of_int c * 10"
    by (simp_all add: growth_of_def growth_formula_def)
  show ?thesis unfolding g by (rule fl_mult_error)
next
  case False
  then have g: "growth_of c p = fl (fl (of_int (c - p) / of_int p) * 100)"
    "growth_formula c p = of_int (c - p) / of_int p * 100"
    by (simp_all add: growth_of_def growth_formula_def)
  show ?thesis unfolding g by (rule fl_mult_error)
qed

lemma rising_stars_entries:
  assumes "r \<in> set (get_rising_stars db now limit)"
  shows "\<exists>e \<in> set (growth_data db now). rs_username r = g_username e \<and>
           rs_current_count r = g_current_count e \<and> rs_previous_count r = g_previous_count e \<and>
           rs_growth_percent r = round1 (g_growth_percent e)"
proof -
  from assms obtain i e where "(i, e) \<in> set (enumerate 0 (take limit (growth_data db now)))"
    and r: "r = \<lparr>rs_rank = i + 1, rs_username = g_username e, rs_display_name = g_display_name e,
             rs_current_count = g_current_count e, rs_previous_count = g_previous_count e,
             rs_growth_percent = round1 (g_growth_percent e)\<rparr>"
    unfolding get_rising_stars_def by auto
  then have "e \<in> snd ` set (enumerate 0 (take limit (growth_data db now)))"
    by force
  then have "e \<in> set (take limit (growth_data db now))"
    by (simp only: set_map [symmetric] map_snd_enumerate)
  then have "e \<in> set (growth_data db now)" by (rule in_set_takeD)
  with r show ?thesis by auto
qed

text \<open>
  C5 (as the code has it).  For every actor of the growth ranking, the two counts are the
  actor's messages in the latest and in the prior week.  The growth value the ranking is
  sorted by is \<open>current_count * 10\<close> when \<open>previous_count = 0\<close> and
  \<open>((current_count - previous_count) / previous_count) * 100\<close> when \<open>previous_count > 0\<close>, as
  floating-point arithmetic gives them: the conversion or the division rounds, and the
  multiplication rounds.  It differs from the exact value of the formula by at most the
  fraction \<open>3 / 2 ^ 53\<close> of it.  The \<open>growth_percent\<close> that \<^verbatim>\<open>get_rising_stars\<close> reports is not
  that value but its rounding to one decimal place: the floating-point number nearest to
  \<open>k / 10\<close>, where \<open>k\<close> is the integer nearest to ten times the value, the even one at a tie.
  With 0 and 5 messages, and with 10 and 15, it reports 50.
\<close>

theorem growth_percent_spec:
  "(\<forall>e \<in> set (growth_data db now).
      g_current_count e = message_count (latest_week now) db (g_username e) \<and>
      g_previous_count e = message_count (prior_week now) db (g_username e) \<and>
      (g_previous_count e = 0 \<longrightarrow>
         g_growth_percent e = fl (fl (of_int (g_current_count e)) * 10)) \<and>
      (0 < g_previous_count e \<longrightarrow>
         g_growth_percent e =
           fl (fl (of_int (g_current_count e - g_previous_count e) / of_int (g_previous_count e))
                 * 100)) \<and>
      \<bar>g_growth_percent e - growth_formula (g_current_count e) (g_previous_count e)\<bar>
        \<le> \<bar>growth_formula (g_current_count e) (g_previous_count e)\<bar> * 3 / 2 ^ 53) \<and>
   sorted (map (\<lambda>e. - g_growth_percent e) (growth_data db now)) \<and>
   (\<forall>r \<in> set (get_rising_stars db now limit).
      \<exists>e \<in> set (growth_data db now).
        rs_username r = g_username e \<and> rs_current_count r = g_current_count e \<and>
        rs_previous_count r = g_previous_count e \<and>
        (\<exists>k. rs_growth_percent r = fl (of_int k / 10) \<and>
             \<bar>g_growth_percent e * 10 - of_int k\<bar> \<le> 1 / 2 \<and>
             (\<bar>g_growth_percent e * 10 - of_int k\<bar> = 1 / 2 \<longrightarrow> even k))) \<and>
   map (\<lambda>r. (rs_username r, rs_previous_count r, rs_current_count r, rs_growth_percent r))
     (get_rising_stars five_and_fifteen (timedelta_days 22) 10)
     = [(''new'', 0, 5, 50), (''old'', 10, 15, 50)]"
proof (intro conjI ballI impI)
  fix e
  assume e: "e \<in> set (growth_data db now)"
  show "g_current_count e = message_count (latest_week now) db (g_username e)"
    by (rule growth_data_entries(2) [OF e])
  show "g_previous_count e = message_count (prior_week now) db (g_username e)"
    by (rule growth_data_entries(3) [OF e])
  show "g_growth_percent e = fl (fl (of_int (g_current_count e)) * 10)" if "g_previous_count e = 0"
    using growth_data_entries(4) [OF e] that by (simp add: growth_of_def)
  show "g_growth_percent e =
      fl (fl (of_int (g_current_count e - g_previous_count e) / of_int (g_previous_count e)) * 100)"
    if "0 < g_previous_count e"
    using growth_data_entries(4) [OF e] that by (simp add: growth_of_def)
  show "\<bar>g_growth_percent e - growth_formula (g_current_count e) (g_previous_count e)\<bar>
      \<le> \<bar>growth_formula (g_current_count e) (g_previous_count e)\<bar> * 3 / 2 ^ 53"
    unfolding growth_data_entries(4) [OF e] by (rule growth_of_error)
next
  show "sorted (map (\<lambda>e. - g_growth_percent e) (growth_data db now))"
    unfolding growth_data_def Let_def by (rule sort_desc_sorted)
next
  fix r
  assume "r \<in> set (get_rising_stars db now limit)"
  from rising_stars_entries [OF this] obtain e where e: "e \<in> set (growth_data db now)"
    and r: "rs_username r = g_username e" "rs_current_count r = g_current_count e"
      "rs_previous_count r = g_previous_count e"
      "rs_growth_percent r = round1 (g_growth_percent e)"
    by blast
  from round1_spec [of "g_growth_percent e"] r(4)
  have "\<exists>k. rs_growth_percent r = fl (of_int k / 10) \<and>
             \<bar>g_growth_percent e * 10 - of_int k\<bar> \<le> 1 / 2 \<and>
             (\<bar>g_growth_percent e * 10 - of_int k\<bar> = 1 / 2 \<longrightarrow> even k)"
    by simp
  with e r show "\<exists>e \<in> set (growth_data db now).
        rs_username r = g_username e \<and> rs_current_count r = g_current_count e \<and>
        rs_previous_count r = g_previous_count e \<and>
        (\<exists>k. rs_growth_percent r = fl (of_int k / 10) \<and>
             \<bar>g_growth_percent e * 10 - of_int k\<bar> \<le> 1 / 2 \<and>
             (\<bar>g_growth_percent e * 10 - of_int k\<bar> = 1 / 2 \<longrightarrow> even k))"
    by blast
next
  show "map (\<lambda>r. (rs_username r, rs_previous_count r, rs_current_count r, rs_growth_percent r))
     (get_rising_stars five_and_fifteen (timedelta_days 22) 10)
     = [(''new'', 0, 5, 50), (''old'', 10, 15, 50)]"
    by code_simp
qed

text \<open>
  With 3 and then 4 messages the sort key is the double 33.33333333333333, and the double
  nearest to 33.3 is reported.  With 2000 and then 2001 messages the key is the double
  0.05, which lies above one twentieth, and 0.1 is reported.  With 10 and then 21
  messages the key is the double 110.00000000000001, which ranks the actor before one
  with 0 and then 11 messages, whose key is 110.
\<close>

theorem growth_percent_spec_witness:
  "(\<exists>e \<in> set (growth_data thirds (timedelta_days 22)).
      g_current_count e = 4 \<and> g_previous_count e = 3 \<and>
      g_growth_percent e = 4691249611844266 / 2 ^ 47) \<and>
   (\<exists>r \<in> set (get_rising_stars thirds (timedelta_days 22) 10).
      rs_growth_percent r = 4686558362232422 / 2 ^ 47) \<and>
   growth_of 2001 2000 = 7205759403792794 / 2 ^ 57 \<and>
   round1 (growth_of 2001 2000) = 7205759403792794 / 2 ^ 56 \<and>
   map (\<lambda>r. (rs_username r, rs_previous_count r, rs_current_count r))
     (get_rising_stars eleven_and_twentyone (timedelta_days 22) 10)
     = [(''old'', 10, 21), (''new'', 0, 11)] \<and>
   map g_growth_percent (growth_data eleven_and_twentyone (timedelta_days 22))
     = [110 + 1 / 2 ^ 46, 110]"
proof -
  have gd: "map g_username (growth_data thirds (timedelta_days 22)) = [''ana'']"
    by code_simp
  then obtain e where e: "e \<in> set (growth_data thirds (timedelta_days 22))"
    and u: "g_username e = ''ana''"
    by (cases "growth_data thirds (timedelta_days 22)") auto
  have c: "message_count (latest_week (timedelta_days 22)) thirds ''ana'' = 4"
    "message_count (prior_week (timedelta_days 22)) thirds ''ana'' = 3"
    by code_simp+
  have f: "fl (fl (1 / 3) * 100) = 4691249611844266 / 2 ^ 47" by code_simp
  from growth_percent_spec [of thirds "timedelta_days 22"] e u c
  have "g_current_count e = 4 \<and> g_previous_count e = 3 \<and>
      g_growth_percent e = fl (fl (1 / 3) * 100)"
    by auto
  then have v: "g_current_count e = 4 \<and> g_previous_count e = 3 \<and>
      g_growth_percent e = 4691249611844266 / 2 ^ 47"
    unfolding f .
  have "map rs_growth_percent (get_rising_stars thirds (timedelta_days 22) 10)
      = [4686558362232422 / 2 ^ 47]"
    by code_simp
  then have 2: "\<exists>r \<in> set (get_rising_stars thirds (timedelta_days 22) 10).
      rs_growth_percent r = 4686558362232422 / 2 ^ 47"
    by (cases "get_rising_stars thirds (timedelta_days 22) 10") auto
  have 3: "growth_of 2001 2000 = 7205759403792794 / 2 ^ 57" by code_simp
  have 4: "round1 (growth_of 2001 2000) = 7205759403792794 / 2 ^ 56" by code_simp
  have 5: "map (\<lambda>r. (rs_username r, rs_previous_count r, rs_current_count r))
     (get_rising_stars eleven_and_twentyone (timedelta_days 22) 10)
     = [(''old'', 10, 21), (''new'', 0, 11)]"
    by code_simp
  have 6: "map g_growth_percent (growth_data eleven_and_twentyone (timedelta_days 22))
     = [110 + 1 / 2 ^ 46, 110]"
    by code_simp
  from e v 2 3 4 5 6 show ?thesis by blast
qed

text \<open>
  The claim as the specification words it fails for the reported value: with 3 and then 4
  messages the formula gives 100 / 3, in floating-point arithmetic 33.33333333333333, and
  \<^verbatim>\<open>get_rising_stars\<close> reports 33.3.
\<close>

theorem growth_percent_is_rounded:
  "map (\<lambda>r. (rs_previous_count r, rs_current_count r, rs_growth_percent r))
     (get_rising_stars thirds (timedelta_days 22) 10) = [(3, 4, 4686558362232422 / 2 ^ 47)] \<and>
   fl (fl (of_int (4 - 3) / of_int 3) * 100) = (4691249611844266 / 2 ^ 47 :: real) \<and>
   growth_formula 4 3 = 100 / 3 \<and>
   (4686558362232422 / 2 ^ 47 :: real) \<noteq> 4691249611844266 / 2 ^ 47 \<and>
   (4686558362232422 / 2 ^ 47 :: real) \<noteq> 100 / 3 \<and>
   \<bar>4686558362232422 / 2 ^ 47 - 333 / 10 :: real\<bar> \<le> 1 / 2 ^ 47"
  by code_simp

section \<open>Verified properties: the hourly histogram\<close>

lemma get_peak_hours_total:
  assumes "length ha = 24"
  shows "\<exists>p. get_peak_hours ha = Inr p"
proof -
  from assms have "ha \<noteq> []" by auto
  with assms show ?thesis by (simp add: get_peak_hours_def Let_def)
qed

lemma length_hourly_histogram: "length (hourly_histogram hourly) = 24"
  by (simp add: hourly_histogram_def)

lemma hours_hourly_histogram: "map hour_of (hourly_histogram hourly) = [0..<24]"
  by (simp add: hourly_histogram_def comp_def)

lemma get_user_stats_None:
  "matched db now uname period = [] \<Longrightarrow>
     get_user_stats db st now channel global uname period = Inr (None, st)"
  by (simp add: get_user_stats_def matched_def Let_def)

lemma get_user_stats_Some:
  assumes "matched db now uname period \<noteq> []"
  shows "\<exists>s st'. get_user_stats db st now channel global uname period = Inr (Some s, st') \<and>
           total_messages s = int (length (matched db now uname period)) \<and>
           hourly_activity s = hourly_histogram (hourly_counts (matched db now uname period)) \<and>
           recent_messages s = recent db uname \<and>
           us_period s = period \<and> us_username s = lower uname"
proof -
  let ?ha = "hourly_histogram (hourly_counts (matched db now uname period))"
  obtain p where p: "get_peak_hours ?ha = Inr p"
    using get_peak_hours_total [OF length_hourly_histogram] by blast
  obtain em st' where em: "get_user_top_emotes db st now channel global uname 10 = (em, st')"
    by (cases "get_user_top_emotes db st now channel global uname 10") auto
  from assms p em show ?thesis
    unfolding get_user_stats_def matched_def [symmetric] recent_def [symmetric] Let_def
    by (simp add: Let_def)
qed


lemma hourly_counts_distinct: "distinct (map fst (hourly_counts docs))"
proof -
  have "mset (map fst (hourly_counts docs)) = mset (first_keys (map hour docs))"
    by (simp add: hourly_counts_def group_by_def comp_def case_prod_unfold
        multiset.map_comp)
  then show ?thesis
    by (metis distinct_first_keys mset_eq_imp_distinct_iff)
qed

lemma hourly_counts_mem:
  "(h, c) \<in> set (hourly_counts docs) \<longleftrightarrow>
     h \<in> hour ` set docs \<and> c = int (length (filter (\<lambda>m. hour m = h) docs))"
  by (auto simp: hourly_counts_def group_by_def set_first_keys)

lemma hourly_counts_lookup:
  "(case map_of (hourly_counts docs) h of Some c \<Rightarrow> c | None \<Rightarrow> 0) =
     int (length (filter (\<lambda>m. hour m = h) docs))"
proof (cases "map_of (hourly_counts docs) h")
  case None
  then have "h \<notin> fst ` set (hourly_counts docs)" by (simp add: map_of_eq_None_iff)
  then have "h \<notin> hour ` set docs"
    using hourly_counts_mem [of h _ docs] by force
  then have "filter (\<lambda>m. hour m = h) docs = []" by (auto simp: filter_empty_conv)
  with None show ?thesis by simp
next
  case (Some c)
  then have "(h, c) \<in> set (hourly_counts docs)" by (rule map_of_SomeD)
  with Some show ?thesis by (simp add: hourly_counts_mem)
qed

lemma count_by_hour:
  "(\<Sum>h\<leftarrow>[0..<n]. int (length (filter (\<lambda>m. hour m = h) docs))) =
     int (length (filter (\<lambda>m. hour m < n) docs))"
proof (induction n)
  case 0
  then show ?case by simp
next
  case (Suc n)
  have "length (filter (\<lambda>m. hour m < Suc n) docs) =
      length (filter (\<lambda>m. hour m < n) docs) + length (filter (\<lambda>m. hour m = n) docs)"
    by (induction docs) auto
  with Suc show ?case by simp
qed

lemma histogram_sum:
  "sum_list (map count_of (hourly_histogram (hourly_counts docs))) =
     int (length (filter (\<lambda>m. hour m < 24) docs))"
proof -
  have "map count_of (hourly_histogram (hourly_counts docs)) =
      map (\<lambda>h. int (length (filter (\<lambda>m. hour m = h) docs))) [0..<24]"
    by (simp add: hourly_histogram_def comp_def hourly_counts_lookup)
  then show ?thesis by (simp only: count_by_hour)
qed

lemma hourly_counts_length:
  assumes "\<forall>m \<in> set docs. hour m < 24"
  shows "length (hourly_counts docs) \<le> 24"
proof -
  have "length (hourly_counts docs) = length (map fst (hourly_counts docs))" by simp
  also have "\<dots> = card (set (map fst (hourly_counts docs)))"
    using hourly_counts_distinct by (simp only: distinct_card)
  also have "set (map fst (hourly_counts docs)) \<subseteq> {0..<24}"
    using assms hourly_counts_mem [of _ _ docs] by auto
  then have "card (set (map fst (hourly_counts docs))) \<le> card {0..<24::nat}"
    by (intro card_mono) auto
  finally show ?thesis by simp
qed

lemma overall_activity:
  assumes "\<forall>m \<in> set db. hour m < 24"
  shows "fst (get_overall_hourly_activity db) =
           map (\<lambda>h. \<lparr>cap_hour = h, cap_count = int (length (filter (\<lambda>m. hour m = h) db))\<rparr>) [0..<24]"
    and "fst (snd (get_overall_hourly_activity db)) = int (length db)"
proof -
  from hourly_counts_length [OF assms] have t: "take 24 (hourly_counts db) = hourly_counts db"
    by simp
  show a: "fst (get_overall_hourly_activity db) =
           map (\<lambda>h. \<lparr>cap_hour = h, cap_count = int (length (filter (\<lambda>m. hour m = h) db))\<rparr>) [0..<24]"
    by (simp add: get_overall_hourly_activity_def Let_def t hourly_counts_lookup)
  have "fst (snd (get_overall_hourly_activity db)) =
      sum_list (map cap_count (fst (get_overall_hourly_activity db)))"
    by (simp add: get_overall_hourly_activity_def Let_def)
  also have "\<dots> = (\<Sum>h\<leftarrow>[0..<24]. int (length (filter (\<lambda>m. hour m = h) db)))"
    unfolding a by (simp add: comp_def)
  also have "\<dots> = int (length (filter (\<lambda>m. hour m < 24) db))"
    by (rule count_by_hour)
  also have "filter (\<lambda>m. hour m < 24) db = db"
    using assms by (simp add: filter_id_conv)
  finally show "fst (snd (get_overall_hourly_activity db)) = int (length db)" .
qed


text \<open>
  C8 (as the code has it).  On a well-formed store: when at least one event matches the
  actor filter and the period, the histogram of \<^verbatim>\<open>get_user_stats\<close> has exactly 24 bins,
  indexed by the hours 0 to 23, and the sum of its bins is the number of matching events,
  which is also the reported total; when no event matches, \<^verbatim>\<open>get_user_stats\<close> returns no
  result, hence no histogram.  The overall histogram (no actor filter, all time) always has
  24 bins indexed 0 to 23 whose sum is the number of events of the store, all zero for the
  empty store.
\<close>

theorem histogram_24_bins:
  "well_formed db \<longrightarrow>
     (matched db now uname period = [] \<longrightarrow>
        get_user_stats db st now channel global uname period = Inr (None, st)) \<and>
     (matched db now uname period \<noteq> [] \<longrightarrow>
        (\<exists>s st'. get_user_stats db st now channel global uname period = Inr (Some s, st') \<and>
           length (hourly_activity s) = 24 \<and>
           map hour_of (hourly_activity s) = [0..<24] \<and>
           sum_list (map count_of (hourly_activity s)) = int (length (matched db now uname period)) \<and>
           total_messages s = int (length (matched db now uname period)))) \<and>
     length (fst (get_overall_hourly_activity db)) = 24 \<and>
     map cap_hour (fst (get_overall_hourly_activity db)) = [0..<24] \<and>
     sum_list (map cap_count (fst (get_overall_hourly_activity db))) = int (length db) \<and>
     fst (snd (get_overall_hourly_activity db)) = int (length db)"
proof (intro impI conjI)
  assume "matched db now uname period = []"
  then show "get_user_stats db st now channel global uname period = Inr (None, st)"
    by (rule get_user_stats_None)
next
  assume wf: "well_formed db" and ne: "matched db now uname period \<noteq> []"
  from get_user_stats_Some [OF ne, of st channel global] obtain s st' where
    g: "get_user_stats db st now channel global uname period = Inr (Some s, st')"
    and t: "total_messages s = int (length (matched db now uname period))"
    and h: "hourly_activity s = hourly_histogram (hourly_counts (matched db now uname period))"
    by blast
  from wf have "filter (\<lambda>m. hour m < 24) (matched db now uname period) = matched db now uname period"
    unfolding filter_id_conv by (auto simp: well_formed_def matched_def)
  then have "sum_list (map count_of (hourly_activity s)) = int (length (matched db now uname period))"
    unfolding h by (simp add: histogram_sum)
  with g t h show "\<exists>s st'. get_user_stats db st now channel global uname period = Inr (Some s, st') \<and>
           length (hourly_activity s) = 24 \<and>
           map hour_of (hourly_activity s) = [0..<24] \<and>
           sum_list (map count_of (hourly_activity s)) = int (length (matched db now uname period)) \<and>
           total_messages s = int (length (matched db now uname period))"
    by (auto simp: length_hourly_histogram hours_hourly_histogram)
next
  assume wf: "well_formed db"
  then have b: "\<forall>m \<in> set db. hour m < 24" by (simp add: well_formed_def)
  show "length (fst (get_overall_hourly_activity db)) = 24"
    by (simp add: overall_activity(1) [OF b])
  show "map cap_hour (fst (get_overall_hourly_activity db)) = [0..<24]"
    by (simp add: overall_activity(1) [OF b] comp_def)
  show "fst (snd (get_overall_hourly_activity db)) = int (length db)"
    by (rule overall_activity(2) [OF b])
  have "sum_list (map cap_count (fst (get_overall_hourly_activity db))) =
      fst (snd (get_overall_hourly_activity db))"
    by (simp add: get_overall_hourly_activity_def Let_def)
  then show "sum_list (map cap_count (fst (get_overall_hourly_activity db))) = int (length db)"
    by (simp add: overall_activity(2) [OF b])
qed

theorem histogram_24_bins_witness:
  "well_formed old_and_new \<and>
   matched old_and_new (timedelta_days 22) ''Ana'' ''all'' \<noteq> [] \<and>
   (\<exists>s st'. get_user_stats old_and_new stale_cache (timedelta_days 22) TimeoutException
               TimeoutException ''Ana'' ''all'' = Inr (Some s, st') \<and>
      length (hourly_activity s) = 24 \<and>
      sum_list (map count_of (hourly_activity s)) = 2 \<and> total_messages s = 2) \<and>
   well_formed [] \<and>
   map cap_count (fst (get_overall_hourly_activity [])) = replicate 24 0 \<and>
   sum_list (map cap_count (fst (get_overall_hourly_activity []))) = 0"
proof -
  have wf: "well_formed old_and_new"
    unfolding well_formed_def by code_simp
  have m: "matched old_and_new (timedelta_days 22) ''Ana'' ''all'' =
      [chat ''ana'' (timedelta_days 1) 7, chat ''ana'' (timedelta_days 21 + timedelta_hours 12) 9]"
    by code_simp
  have wf0: "well_formed []" by (simp add: well_formed_def)
  have z: "map cap_count (fst (get_overall_hourly_activity [])) = replicate 24 0"
    by code_simp
  have z0: "sum_list (map cap_count (fst (get_overall_hourly_activity []))) = 0"
    using histogram_24_bins [of "[]"] wf0 by simp
  have ne: "matched old_and_new (timedelta_days 22) ''Ana'' ''all'' \<noteq> []"
    unfolding m by simp
  have l: "int (length (matched old_and_new (timedelta_days 22) ''Ana'' ''all'')) = 2"
    unfolding m by simp
  from histogram_24_bins [of old_and_new "timedelta_days 22" "''Ana''" "''all''" stale_cache
      TimeoutException TimeoutException] wf ne
  have "\<exists>s st'. get_user_stats old_and_new stale_cache (timedelta_days 22) TimeoutException
               TimeoutException ''Ana'' ''all'' = Inr (Some s, st') \<and>
      length (hourly_activity s) = 24 \<and>
      sum_list (map count_of (hourly_activity s)) = 2 \<and> total_messages s = 2"
    unfolding l by blast
  with wf ne wf0 z z0 show ?thesis by blast
qed

text \<open>
  The claim as the specification words it fails for an actor filter that no event matches:
  no histogram of 24 zero bins is built, the operation returns no result.
\<close>

theorem no_histogram_without_messages:
  "matched [] 0 ''alice'' ''all'' = [] \<and>
   get_user_stats [] stale_cache 0 TimeoutException TimeoutException ''alice'' ''all''
     = Inr (None, stale_cache)"
  by (simp add: get_user_stats_def matched_def Let_def)

section \<open>Verified properties: recent messages\<close>

lemma sort_desc_take_drop:
  assumes "x \<in> set (take n (sort_desc key xs))" and "y \<in> set (drop n (sort_desc key xs))"
  shows "key y \<le> key x"
proof -
  have "sorted (map (\<lambda>x. - key x) (take n (sort_desc key xs) @ drop n (sort_desc key xs)))"
    by (simp add: sort_desc_sorted)
  then have "\<forall>a \<in> set (take n (sort_desc key xs)). \<forall>b \<in> set (drop n (sort_desc key xs)). - key a \<le> - key b"
    unfolding map_append sorted_append by auto
  with assms show ?thesis by auto
qed

lemma sort_desc_newest_first: "sorted (rev (map key (sort_desc key xs)))"
proof -
  have "sorted (map (\<lambda>x. - key x) (sort_desc key xs))" by (rule sort_desc_sorted)
  then have "sorted_wrt (\<lambda>a b. key b \<le> key a) (sort_desc key xs)"
    by (simp add: sorted_wrt_map)
  then have "sorted_wrt (\<lambda>a b. b \<le> a) (map key (sort_desc key xs))"
    by (simp add: sorted_wrt_map)
  then show ?thesis
    by (simp add: sorted_wrt_rev)
qed

lemma recent_props:
  "length (recent db uname) = min 10 (length (filter (\<lambda>m. username m = lower uname) db))"
  "sorted (rev (map rm_timestamp (recent db uname)))"
  "set (recent db uname) \<subseteq>
     (\<lambda>m. \<lparr>rm_message = message m, rm_timestamp = timestamp m\<rparr>) ` {m \<in> set db. username m = lower uname}"
  "\<forall>m \<in> set db. username m = lower uname \<longrightarrow>
     \<lparr>rm_message = message m, rm_timestamp = timestamp m\<rparr> \<in> set (recent db uname) \<or>
     (\<forall>r \<in> set (recent db uname). timestamp m \<le> rm_timestamp r)"
proof -
  let ?xs = "sort_desc timestamp (filter (\<lambda>m. username m = lower uname) db)"
  show "length (recent db uname) = min 10 (length (filter (\<lambda>m. username m = lower uname) db))"
    by (simp add: recent_def length_sort_desc min.commute)
  have "sorted (rev (map timestamp ?xs))" by (rule sort_desc_newest_first)
  then have "sorted (rev (take 10 (map timestamp ?xs)))"
    by (metis append_take_drop_id rev_append sorted_append)
  then show "sorted (rev (map rm_timestamp (recent db uname)))"
    by (simp add: recent_def comp_def take_map)
  show "set (recent db uname) \<subseteq>
     (\<lambda>m. \<lparr>rm_message = message m, rm_timestamp = timestamp m\<rparr>) ` {m \<in> set db. username m = lower uname}"
  proof -
    have "set (take 10 ?xs) \<subseteq> set ?xs" by (rule set_take_subset)
    then show ?thesis by (auto simp: recent_def set_sort_desc)
  qed
  show "\<forall>m \<in> set db. username m = lower uname \<longrightarrow>
     \<lparr>rm_message = message m, rm_timestamp = timestamp m\<rparr> \<in> set (recent db uname) \<or>
     (\<forall>r \<in> set (recent db uname). timestamp m \<le> rm_timestamp r)"
  proof (intro ballI impI)
    fix m assume "m \<in> set db" "username m = lower uname"
    then have "m \<in> set ?xs" by (simp add: set_sort_desc)
    then have "m \<in> set (take 10 ?xs) \<or> m \<in> set (drop 10 ?xs)"
      by (metis Un_iff append_take_drop_id set_append)
    then show "\<lparr>rm_message = message m, rm_timestamp = timestamp m\<rparr> \<in> set (recent db uname) \<or>
     (\<forall>r \<in> set (recent db uname). timestamp m \<le> rm_timestamp r)"
    proof
      assume "m \<in> set (take 10 ?xs)"
      then show ?thesis by (auto simp: recent_def)
    next
      assume d: "m \<in> set (drop 10 ?xs)"
      have "\<forall>r \<in> set (recent db uname). timestamp m \<le> rm_timestamp r"
      proof
        fix r assume "r \<in> set (recent db uname)"
        then obtain x where x: "x \<in> set (take 10 ?xs)" and r: "rm_timestamp r = timestamp x"
          by (auto simp: recent_def)
        from sort_desc_take_drop [OF x d] r show "timestamp m \<le> rm_timestamp r" by simp
      qed
      then show ?thesis ..
    qed
  qed
qed

lemma get_user_stats_recent:
  assumes "get_user_stats db st now channel global uname period = Inr (Some s, st')"
  shows "recent_messages s = recent db uname"
proof (cases "matched db now uname period = []")
  case True
  from get_user_stats_None [OF True] assms show ?thesis by simp
next
  case False
  from get_user_stats_Some [OF False, of st channel global] assms show ?thesis by auto
qed


text \<open>
  C10.  Whenever \<^verbatim>\<open>get_user_stats\<close> returns a result, its \<open>recent_messages\<close> are taken
  from all the actor's messages in the store, whatever the period and the instant of the
  request: they are the first ten of these messages in the order of descending
  timestamp.  So there are ten of them, or as many as the actor has; they are ordered
  newest first; each is a message of the actor; and an actor's message that is not listed
  is at most as recent as every listed one.  Two requests on the same store for the same
  actor list the same messages, even when their periods differ.
\<close>

theorem recent_messages_ignore_period:
  "get_user_stats db st now channel global uname period = Inr (Some s, st') \<longrightarrow>
     recent_messages s = recent db uname \<and>
     length (recent_messages s) = min 10 (length (filter (\<lambda>m. username m = lower uname) db)) \<and>
     sorted (rev (map rm_timestamp (recent_messages s))) \<and>
     set (recent_messages s) \<subseteq>
       (\<lambda>m. \<lparr>rm_message = message m, rm_timestamp = timestamp m\<rparr>) `
         {m \<in> set db. username m = lower uname} \<and>
     (\<forall>m \<in> set db. username m = lower uname \<longrightarrow>
        \<lparr>rm_message = message m, rm_timestamp = timestamp m\<rparr> \<in> set (recent_messages s) \<or>
        (\<forall>r \<in> set (recent_messages s). timestamp m \<le> rm_timestamp r)) \<and>
     (\<forall>st2 now2 channel2 global2 period2 s2 st2'.
        get_user_stats db st2 now2 channel2 global2 uname period2 = Inr (Some s2, st2') \<longrightarrow>
        recent_messages s2 = recent_messages s)"
proof
  assume g: "get_user_stats db st now channel global uname period = Inr (Some s, st')"
  have r: "recent_messages s = recent db uname"
    by (rule get_user_stats_recent [OF g])
  have "\<forall>st2 now2 channel2 global2 period2 s2 st2'.
        get_user_stats db st2 now2 channel2 global2 uname period2 = Inr (Some s2, st2') \<longrightarrow>
        recent_messages s2 = recent_messages s"
    unfolding r by (blast dest: get_user_stats_recent)
  with recent_props [of db uname] show "recent_messages s = recent db uname \<and>
     length (recent_messages s) = min 10 (length (filter (\<lambda>m. username m = lower uname) db)) \<and>
     sorted (rev (map rm_timestamp (recent_messages s))) \<and>
     set (recent_messages s) \<subseteq>
       (\<lambda>m. \<lparr>rm_message = message m, rm_timestamp = timestamp m\<rparr>) `
         {m \<in> set db. username m = lower uname} \<and>
     (\<forall>m \<in> set db. username m = lower uname \<longrightarrow>
        \<lparr>rm_message = message m, rm_timestamp = timestamp m\<rparr> \<in> set (recent_messages s) \<or>
        (\<forall>r \<in> set (recent_messages s). timestamp m \<le> rm_timestamp r)) \<and>
     (\<forall>st2 now2 channel2 global2 period2 s2 st2'.
        get_user_stats db st2 now2 channel2 global2 uname period2 = Inr (Some s2, st2') \<longrightarrow>
        recent_messages s2 = recent_messages s)"
    unfolding r by blast
qed

theorem recent_messages_ignore_period_witness:
  "\<exists>s st'. get_user_stats old_and_new stale_cache (timedelta_days 22) TimeoutException
              TimeoutException ''Ana'' ''day'' = Inr (Some s, st') \<and>
     total_messages s = 1 \<and>
     map rm_timestamp (recent_messages s) = [timedelta_days 21 + timedelta_hours 12, timedelta_days 1] \<and>
     timedelta_days 1 < timedelta_days 22 - timedelta_days 1"
proof -
  have m: "matched old_and_new (timedelta_days 22) ''Ana'' ''day'' =
      [chat ''ana'' (timedelta_days 21 + timedelta_hours 12) 9]"
    by code_simp
  then have ne: "matched old_and_new (timedelta_days 22) ''Ana'' ''day'' \<noteq> []" by simp
  from get_user_stats_Some [OF ne, of stale_cache TimeoutException TimeoutException]
  obtain s st' where g: "get_user_stats old_and_new stale_cache (timedelta_days 22) TimeoutException
              TimeoutException ''Ana'' ''day'' = Inr (Some s, st')"
    and t: "total_messages s = int (length (matched old_and_new (timedelta_days 22) ''Ana'' ''day''))"
    by blast
  have r: "map rm_timestamp (recent old_and_new ''Ana'') =
      [timedelta_days 21 + timedelta_hours 12, timedelta_days 1]"
    by code_simp
  have lt: "timedelta_days 1 < timedelta_days 22 - timedelta_days 1"
    by code_simp
  from recent_messages_ignore_period [of old_and_new stale_cache "timedelta_days 22" TimeoutException
      TimeoutException "''Ana''" "''day''" s st'] g
  have "recent_messages s = recent old_and_new ''Ana''" by blast
  with g t r lt show ?thesis unfolding m by auto
qed

section \<open>Verified properties: replies\<close>

lemma previous_messages_window: "previous_messages db uname m = take 50 (reply_window db uname m)"
  by (simp add: previous_messages_def reply_window_def Let_def)

lemma map_of_dict_set: "map_of (dict_set k v ps) = (map_of ps)(k \<mapsto> v)"
  by (induction ps) (auto simp: fun_eq_iff)

lemma keys_dict_set: "fst ` set (dict_set k v ps) = insert k (fst ` set ps)"
  by (induction ps) auto

lemma distinct_dict_set: "distinct (map fst ps) \<Longrightarrow> distinct (map fst (dict_set k v ps))"
  by (induction ps) (auto simp: keys_dict_set)

lemma credit_map_of:
  "map_of (credit rc p) =
     (map_of rc)(username p \<mapsto>
        (case map_of rc (username p) of
           None \<Rightarrow> (display_name p, 1)
         | Some (dn, c) \<Rightarrow> (dn, c + 1)))"
  by (auto simp: credit_def Let_def map_of_dict_set fun_eq_iff split: option.splits)

lemma credit_keys: "fst ` set (credit rc p) = insert (username p) (fst ` set rc)"
  by (auto simp: credit_def Let_def keys_dict_set map_of_dict_set split: option.splits
      simp: map_of_eq_None_iff) 


lemma credit_distinct: "distinct (map fst rc) \<Longrightarrow> distinct (map fst (credit rc p))"
  by (auto simp: credit_def Let_def distinct_dict_set split: option.splits)

lemma tally_credit:
  "tally (credit rc p) other = tally rc other + (if username p = other then 1 else 0)"
  by (auto simp: tally_def credit_map_of split: option.splits)

lemma tally_foldl_credit:
  "tally (foldl credit rc ps) other =
     tally rc other + int (length (filter (\<lambda>p. username p = other) ps))"
  by (induction ps arbitrary: rc) (auto simp: tally_credit)

lemma keys_foldl_credit:
  "fst ` set (foldl credit rc ps) = fst ` set rc \<union> username ` set ps"
  by (induction ps arbitrary: rc) (auto simp: credit_keys)

lemma distinct_foldl_credit:
  "distinct (map fst rc) \<Longrightarrow> distinct (map fst (foldl credit rc ps))"
  by (induction ps arbitrary: rc) (auto simp: credit_distinct)

lemma foldl_foldl_concat:
  "foldl (\<lambda>acc x. foldl f acc (g x)) acc xs = foldl f acc (concat (map g xs))"
  by (induction xs arbitrary: acc) auto

lemma reply_counts_concat:
  "reply_counts db uname msgs = foldl credit [] (concat (map (previous_messages db uname) msgs))"
  by (simp add: reply_counts_def foldl_foldl_concat)

lemma credits_concat:
  "credits db uname msgs other =
     int (length (filter (\<lambda>p. username p = other) (concat (map (previous_messages db uname) msgs))))"
  by (induction msgs) (auto simp: credits_def previous_messages_window)

lemma reply_counts_entry:
  assumes "(u, dn, c) \<in> set (reply_counts db uname msgs)"
  shows "c = credits db uname msgs u" and "0 < c" and "u \<noteq> lower uname"
proof -
  let ?ps = "concat (map (previous_messages db uname) msgs)"
  have d: "distinct (map fst (reply_counts db uname msgs))"
    unfolding reply_counts_concat by (rule distinct_foldl_credit) simp
  with assms have "map_of (reply_counts db uname msgs) u = Some (dn, c)" by simp
  then have "tally (reply_counts db uname msgs) u = c" by (simp add: tally_def)
  moreover have "tally (reply_counts db uname msgs) u = credits db uname msgs u"
    unfolding reply_counts_concat credits_concat tally_foldl_credit by (simp add: tally_def)
  ultimately show c: "c = credits db uname msgs u" by simp
  from assms have "u \<in> fst ` set (reply_counts db uname msgs)" by force
  then have "u \<in> username ` set ?ps"
    unfolding reply_counts_concat by (simp add: keys_foldl_credit)
  then obtain p where p: "p \<in> set ?ps" "username p = u" by auto
  then have "filter (\<lambda>p. username p = u) ?ps \<noteq> []" by (auto simp: filter_empty_conv)
  then show "0 < c" unfolding c credits_concat by simp
  from p(1) obtain m where "p \<in> set (previous_messages db uname m)" by auto
  then have "p \<in> set (reply_window db uname m)"
    unfolding previous_messages_window by (rule in_set_takeD)
  with p(2) show "u \<noteq> lower uname" by (auto simp: reply_window_def)
qed

lemma reply_counts_keys:
  "fst ` set (reply_counts db uname msgs) = {u. 0 < credits db uname msgs u}"
proof -
  let ?ps = "concat (map (previous_messages db uname) msgs)"
  have "\<And>u. u \<in> username ` set ?ps \<longleftrightarrow> 0 < credits db uname msgs u"
    unfolding credits_concat by (auto simp: filter_empty_conv)
  then show ?thesis
    unfolding reply_counts_concat by (auto simp: keys_foldl_credit)
qed


lemma get_top_replies_alt:
  "get_top_replies db now uname period limit =
     map (\<lambda>(u, dn, c). \<lparr>rt_username = u, rt_display_name = dn, reply_count = c\<rparr>)
       (take limit (sort_desc (\<lambda>(u, dn, c). c)
          (reply_counts db uname (user_messages db now uname period))))"
  by (simp add: get_top_replies_def Let_def reply_counts_def sort_desc_def)

lemma credits_single:
  "credits db uname [m] other =
     int (length (filter (\<lambda>p. username p = other) (take 50 (reply_window db uname m))))"
  by (simp add: credits_def)

lemma filter_take_length: "length (filter P (take n xs)) \<le> length (filter P xs)"
proof -
  have "length (filter P xs) = length (filter P (take n xs)) + length (filter P (drop n xs))"
    by (metis append_take_drop_id filter_append length_append)
  then show ?thesis by simp
qed

text \<open>
  C9 (as the code has it).  Every actor that \<^verbatim>\<open>get_top_replies\<close> lists is another actor
  than the subject, and the listed reply count is the actor's credit over the subject's
  messages: for each of them, one credit for each message of the actor among the first 50
  messages that the store returns from the window of the ten seconds before it.  An actor
  with a credit is listed unless the list is full.  For one message of the subject the
  credit is at most the number of the actor's messages in the window, and it is that
  number when the window holds at most 50 messages.  With A at 100 s and B at 95 s and
  80 s, the credit of B is 1.
\<close>

theorem reply_credits_spec:
  "(\<forall>r \<in> set (get_top_replies db now uname period limit).
      rt_username r \<noteq> lower uname \<and> 0 < reply_count r \<and>
      reply_count r = credits db uname (user_messages db now uname period) (rt_username r)) \<and>
   distinct (map rt_username (get_top_replies db now uname period limit)) \<and>
   length (get_top_replies db now uname period limit) \<le> limit \<and>
   (\<forall>other. 0 < credits db uname (user_messages db now uname period) other \<longrightarrow>
      other \<in> rt_username ` set (get_top_replies db now uname period limit) \<or>
      length (get_top_replies db now uname period limit) = limit) \<and>
   (\<forall>m other. credits db uname [m] other
        \<le> int (length (filter (\<lambda>p. username p = other) (reply_window db uname m)))) \<and>
   (\<forall>m other. length (reply_window db uname m) \<le> 50 \<longrightarrow>
      credits db uname [m] other
        = int (length (filter (\<lambda>p. username p = other) (reply_window db uname m)))) \<and>
   get_top_replies a_after_b (timedelta_seconds 200) ''A'' ''all'' 5
     = [\<lparr>rt_username = ''b'', rt_display_name = ''b'', reply_count = 1\<rparr>]"
proof (intro conjI ballI allI impI)
  let ?msgs = "user_messages db now uname period"
  let ?rc = "reply_counts db uname ?msgs"
  let ?sorted = "sort_desc (\<lambda>(u, dn, c). c) ?rc"
  let ?res = "get_top_replies db now uname period limit"
  have d: "distinct (map fst ?rc)"
    unfolding reply_counts_concat by (rule distinct_foldl_credit) simp
  have names: "map rt_username ?res = take limit (map fst ?sorted)"
    by (simp add: get_top_replies_alt take_map comp_def case_prod_unfold)
  {
    fix r
    assume "r \<in> set ?res"
    then obtain u dn c where e: "(u, dn, c) \<in> set (take limit ?sorted)"
      and r: "r = \<lparr>rt_username = u, rt_display_name = dn, reply_count = c\<rparr>"
      unfolding get_top_replies_alt by auto
    from e have "(u, dn, c) \<in> set ?sorted" by (rule in_set_takeD)
    then have m: "(u, dn, c) \<in> set ?rc" by (simp add: set_sort_desc)
    from reply_counts_entry [OF m] r
    show "rt_username r \<noteq> lower uname" and "0 < reply_count r"
      and "reply_count r = credits db uname ?msgs (rt_username r)"
      by simp_all
  }
  show "distinct (map rt_username ?res)"
    unfolding names using d by (simp add: distinct_take distinct_map_sort_desc)
  show "length ?res \<le> limit"
    by (simp add: get_top_replies_alt)
  {
    fix other
    assume "0 < credits db uname ?msgs other"
    then have k: "other \<in> fst ` set ?rc" by (simp add: reply_counts_keys)
    show "other \<in> rt_username ` set ?res \<or> length ?res = limit"
    proof (cases "length ?rc \<le> limit")
      case True
      then have "take limit (map fst ?sorted) = map fst ?sorted"
        by (simp add: length_sort_desc)
      then have "set (map rt_username ?res) = fst ` set ?rc"
        unfolding names by (simp add: set_sort_desc)
      with k show ?thesis by auto
    next
      case False
      then have "length ?res = limit"
        by (simp add: get_top_replies_alt length_sort_desc)
      then show ?thesis ..
    qed
  }
  {
    fix m other
    show "credits db uname [m] other
        \<le> int (length (filter (\<lambda>p. username p = other) (reply_window db uname m)))"
      unfolding credits_single using filter_take_length [of _ 50] by simp
    show "credits db uname [m] other
        = int (length (filter (\<lambda>p. username p = other) (reply_window db uname m)))"
      if "length (reply_window db uname m) \<le> 50"
      unfolding credits_single using that by simp
  }
  show "get_top_replies a_after_b (timedelta_seconds 200) ''A'' ''all'' 5
     = [\<lparr>rt_username = ''b'', rt_display_name = ''b'', reply_count = 1\<rparr>]"
    by code_simp
qed

theorem reply_credits_spec_witness:
  "\<lparr>rt_username = ''b'', rt_display_name = ''b'', reply_count = 1\<rparr>
     \<in> set (get_top_replies a_after_b (timedelta_seconds 200) ''A'' ''all'' 5) \<and>
   credits a_after_b ''A'' (user_messages a_after_b (timedelta_seconds 200) ''A'' ''all'') ''b'' = 1 \<and>
   length (reply_window a_after_b ''A'' (chat ''a'' (timedelta_seconds 100) 1)) \<le> 50 \<and>
   credits a_after_b ''A'' [chat ''a'' (timedelta_seconds 100) 1] ''b'' =
     int (length (filter (\<lambda>p. username p = ''b'')
            (reply_window a_after_b ''A'' (chat ''a'' (timedelta_seconds 100) 1))))"
proof -
  have m: "\<lparr>rt_username = ''b'', rt_display_name = ''b'', reply_count = 1\<rparr>
     \<in> set (get_top_replies a_after_b (timedelta_seconds 200) ''A'' ''all'' 5)"
    using reply_credits_spec [of a_after_b "timedelta_seconds 200" "''A''" "''all''" 5] by simp
  have l: "length (reply_window a_after_b ''A'' (chat ''a'' (timedelta_seconds 100) 1)) \<le> 50"
    by code_simp
  from reply_credits_spec [of a_after_b "timedelta_seconds 200" "''A''" "''all''" 5] m
  have c: "credits a_after_b ''A'' (user_messages a_after_b (timedelta_seconds 200) ''A'' ''all'') ''b'' = 1"
    by force
  from reply_credits_spec [of a_after_b "timedelta_seconds 200" "''A''" "''all''" 5] l
  have s: "credits a_after_b ''A'' [chat ''a'' (timedelta_seconds 100) 1] ''b'' =
     int (length (filter (\<lambda>p. username p = ''b'')
            (reply_window a_after_b ''A'' (chat ''a'' (timedelta_seconds 100) 1))))"
    by blast
  from m c l s show ?thesis by blast
qed

text \<open>
  The claim as the specification words it fails when more than 50 messages of other actors
  lie in the window: of the 51 messages of B in the ten seconds before the message of A,
  only 50 earn a credit.
\<close>

theorem reply_credits_capped_at_50:
  "get_top_replies a_after_51 (timedelta_seconds 200) ''A'' ''all'' 5
     = [\<lparr>rt_username = ''b'', rt_display_name = ''b'', reply_count = 50\<rparr>] \<and>
   length (filter (\<lambda>p. username p = ''b'')
      (reply_window a_after_51 ''A'' (chat ''a'' (timedelta_seconds 100) 1))) = 51"
  by code_simp

section \<open>Verified properties: the rival\<close>

lemma two_prod_le:
  fixes D A B a b :: int
  assumes D: "D\<^sup>2 \<le> A * B" and A: "0 \<le> A" and B: "0 \<le> B"
  shows "2 * D * a * b \<le> A * b\<^sup>2 + B * a\<^sup>2"
proof -
  define X where "X = A * b\<^sup>2"
  define Y where "Y = B * a\<^sup>2"
  define Z where "Z = D * (a * b)"
  have X: "0 \<le> X" and Y: "0 \<le> Y" using A B by (simp_all add: X_def Y_def)
  have "Z\<^sup>2 = D\<^sup>2 * (a * b)\<^sup>2" unfolding Z_def by (rule power_mult_distrib)
  also have "\<dots> \<le> (A * B) * (a * b)\<^sup>2"
    using D by (rule mult_right_mono) simp
  also have "\<dots> = X * Y" unfolding X_def Y_def by (simp add: power_mult_distrib)
  finally have ZXY: "Z\<^sup>2 \<le> X * Y" .
  have "0 \<le> (X - Y)\<^sup>2" by simp
  then have "4 * (X * Y) \<le> (X + Y)\<^sup>2"
    by (simp add: power2_sum power2_diff)
  with ZXY have sq: "(2 * Z)\<^sup>2 \<le> (X + Y)\<^sup>2"
    by (simp add: power_mult_distrib)
  from X Y have nn: "0 \<le> X + Y" by (rule add_nonneg_nonneg)
  have "2 * Z \<le> X + Y" by (rule power2_le_imp_le [OF sq nn])
  then show ?thesis unfolding X_def Y_def Z_def by (simp add: mult.assoc)
qed

lemma cauchy_schwarz_pairs:
  fixes ps :: "(int \<times> int) list"
  shows "(\<Sum>(a, b)\<leftarrow>ps. a * b)\<^sup>2 \<le> (\<Sum>(a, b)\<leftarrow>ps. a * a) * (\<Sum>(a, b)\<leftarrow>ps. b * b)"
proof (induction ps)
  case Nil
  then show ?case by simp
next
  case (Cons p ps)
  obtain a b where p: "p = (a, b)" by (cases p)
  define D where "D = (\<Sum>(a, b)\<leftarrow>ps. a * b)"
  define A where "A = (\<Sum>(a, b)\<leftarrow>ps. a * a)"
  define B where "B = (\<Sum>(a, b)\<leftarrow>ps. b * b)"
  have A: "0 \<le> A" unfolding A_def by (rule sum_list_nonneg) auto
  have B: "0 \<le> B" unfolding B_def by (rule sum_list_nonneg) auto
  from Cons.IH have IH: "D\<^sup>2 \<le> A * B" unfolding D_def A_def B_def .
  have e1: "(a * b + D)\<^sup>2 = D\<^sup>2 + 2 * D * a * b + a\<^sup>2 * b\<^sup>2"
    by (simp add: power2_eq_square algebra_simps)
  have e2: "A * B + (A * b\<^sup>2 + B * a\<^sup>2) + a\<^sup>2 * b\<^sup>2 = (a * a + A) * (b * b + B)"
    by (simp add: power2_eq_square algebra_simps)
  have "D\<^sup>2 + 2 * D * a * b + a\<^sup>2 * b\<^sup>2 \<le> A * B + (A * b\<^sup>2 + B * a\<^sup>2) + a\<^sup>2 * b\<^sup>2"
    using IH two_prod_le [OF IH A B, of a b] by linarith
  then have "(a * b + D)\<^sup>2 \<le> (a * a + A) * (b * b + B)"
    unfolding e1 e2 .
  then show ?case
    unfolding p D_def A_def B_def by simp
qed

lemma sum_squares_nonneg: "0 \<le> sum_squares v"
  unfolding sum_squares_def by (rule sum_list_nonneg) auto

lemma dot_product_squared:
  assumes "length v = length w"
  shows "(dot_product v w)\<^sup>2 \<le> sum_squares v * sum_squares w"
proof -
  have a: "(\<Sum>(a, b)\<leftarrow>zip v w. a * a) = sum_squares v"
    using assms by (induction v w rule: list_induct2) (simp_all add: sum_squares_def)
  have b: "(\<Sum>(a, b)\<leftarrow>zip v w. b * b) = sum_squares w"
    using assms by (induction v w rule: list_induct2) (simp_all add: sum_squares_def)
  from cauchy_schwarz_pairs [of "zip v w"] show ?thesis
    unfolding a b dot_product_def .
qed

lemma dot_product_self: "dot_product v v = sum_squares v"
  by (induction v) (simp_all add: dot_product_def sum_squares_def)

lemma dot_product_nonneg:
  assumes "\<forall>x \<in> set v. 0 \<le> x" and "\<forall>x \<in> set w. 0 \<le> x"
  shows "0 \<le> dot_product v w"
  unfolding dot_product_def
proof (rule sum_list_nonneg)
  fix x assume "x \<in> set (map (\<lambda>(a, b). a * b) (zip v w))"
  then obtain a b where "(a, b) \<in> set (zip v w)" and x: "x = a * b" by auto
  then have "a \<in> set v" "b \<in> set w" by (auto dest: set_zip_leftD set_zip_rightD)
  with assms x show "0 \<le> x" by simp
qed


lemma sum_squares_pos:
  assumes "\<exists>x \<in> set v. x \<noteq> 0"
  shows "0 < sum_squares v"
proof -
  have "sum_squares v = 0 \<longleftrightarrow> (\<forall>y \<in> set (map (\<lambda>x. x * x) v). y = 0)"
    unfolding sum_squares_def by (rule sum_list_nonneg_eq_0_iff) auto
  with assms have "sum_squares v \<noteq> 0" by auto
  with sum_squares_nonneg [of v] show ?thesis by linarith
qed

lemma sum_squares_zero:
  assumes "\<forall>x \<in> set v. x = 0"
  shows "sum_squares v = 0"
proof -
  have "sum_squares v = 0 \<longleftrightarrow> (\<forall>y \<in> set (map (\<lambda>x. x * x) v). y = 0)"
    unfolding sum_squares_def by (rule sum_list_nonneg_eq_0_iff) auto
  with assms show ?thesis by auto
qed

lemma magnitude_sum_squares: "magnitude v = fl (sqrt (fl (of_int (sum_squares v))))"
  by (simp add: magnitude_def sum_squares_def)

lemma magnitude_zero_iff: "magnitude v = 0 \<longleftrightarrow> (\<forall>x \<in> set v. x = 0)"
proof
  assume "magnitude v = 0"
  then have "sqrt (fl (of_int (sum_squares v))) = 0"
    unfolding magnitude_sum_squares by (simp only: fl_eq_0_iff)
  then have "fl (of_int (sum_squares v)) = 0" by simp
  then have "(of_int (sum_squares v) :: real) = 0" by (simp only: fl_eq_0_iff)
  then have z: "sum_squares v = 0" by simp
  show "\<forall>x \<in> set v. x = 0"
  proof (rule ccontr)
    assume "\<not> (\<forall>x \<in> set v. x = 0)"
    then have "\<exists>x \<in> set v. x \<noteq> 0" by simp
    from sum_squares_pos [OF this] z show False by simp
  qed
next
  assume "\<forall>x \<in> set v. x = 0"
  then have "sum_squares v = 0" by (rule sum_squares_zero)
  then show "magnitude v = 0" unfolding magnitude_sum_squares by (simp add: fl_0)
qed

lemma magnitude_nonneg: "0 \<le> magnitude v"
  unfolding magnitude_sum_squares by (intro fl_nonneg real_sqrt_ge_zero) (simp add: sum_squares_nonneg)

lemma similarity_nonneg:
  assumes "\<forall>x \<in> set v. 0 \<le> x" and "\<forall>x \<in> set w. 0 \<le> x"
  shows "0 \<le> similarity v w"
proof -
  have "0 \<le> (of_int (dot_product v w) :: real)"
    using dot_product_nonneg [OF assms] by simp
  then have d: "0 \<le> fl (of_int (dot_product v w))" by (rule fl_nonneg)
  have "0 \<le> magnitude v * magnitude w"
    by (rule mult_nonneg_nonneg [OF magnitude_nonneg magnitude_nonneg])
  then have "0 \<le> fl (magnitude v * magnitude w)" by (rule fl_nonneg)
  with d have "0 \<le> fl (of_int (dot_product v w)) / fl (magnitude v * magnitude w)"
    by (rule divide_nonneg_nonneg)
  then have "0 \<le> fl (fl (of_int (dot_product v w)) / fl (magnitude v * magnitude w))"
    by (rule fl_nonneg)
  then have "0 \<le> fl (fl (of_int (dot_product v w)) / fl (magnitude v * magnitude w)) * 100"
    by simp
  then show ?thesis unfolding similarity_def by (rule fl_nonneg)
qed

text \<open>
  The exact cosine similarity is at most 100 (Cauchy-Schwarz), and the computed one
  agrees with it up to eight roundings.
\<close>

lemma exact_cosine_le_100:
  assumes "length v = length w"
  shows "of_int (dot_product v w) / (sqrt (of_int (sum_squares v)) * sqrt (of_int (sum_squares w)))
           * 100 \<le> (100::real)"
proof -
  define D :: real where "D = of_int (dot_product v w)"
  define A :: real where "A = of_int (sum_squares v)"
  define B :: real where "B = of_int (sum_squares w)"
  have A: "0 \<le> A" and B: "0 \<le> B"
    unfolding A_def B_def using sum_squares_nonneg by simp_all
  have "of_int ((dot_product v w)\<^sup>2) \<le> (of_int (sum_squares v * sum_squares w) :: real)"
    using dot_product_squared [OF assms] by (simp only: of_int_le_iff)
  then have sq: "D\<^sup>2 \<le> A * B" unfolding D_def A_def B_def by simp
  have "D \<le> \<bar>D\<bar>" by simp
  also have "\<bar>D\<bar> = sqrt (D\<^sup>2)" by simp
  also have "\<dots> \<le> sqrt (A * B)" using sq by (simp only: real_sqrt_le_iff)
  also have "\<dots> = sqrt A * sqrt B" by (rule real_sqrt_mult)
  finally have le: "D \<le> sqrt A * sqrt B" .
  have nn: "0 \<le> sqrt A * sqrt B" using A B by simp
  have "D / (sqrt A * sqrt B) \<le> 1"
  proof (cases "sqrt A * sqrt B = 0")
    case True
    show ?thesis unfolding True by simp
  next
    case False
    from nn False have pos: "0 < sqrt A * sqrt B" unfolding less_le by (intro conjI) (assumption, rule not_sym)
    from le show ?thesis unfolding pos_divide_le_eq [OF pos] by simp
  qed
  then have "D / (sqrt A * sqrt B) * 100 \<le> 1 * 100" by (rule mult_right_mono) simp
  then have "D / (sqrt A * sqrt B) * 100 \<le> 100" by (simp only: mult_1)
  then show ?thesis unfolding D_def A_def B_def .
qed

lemma exact_cosine_nonneg:
  assumes "0 \<le> dot_product v w"
  shows "(0::real) \<le> of_int (dot_product v w)
           / (sqrt (of_int (sum_squares v)) * sqrt (of_int (sum_squares w))) * 100"
proof -
  have "(0::real) \<le> of_int (dot_product v w)" using assms by simp
  moreover have "0 \<le> sqrt (of_int (sum_squares v)) * sqrt (of_int (sum_squares w))"
    using sum_squares_nonneg by (intro mult_nonneg_nonneg) simp_all
  ultimately have "0 \<le> of_int (dot_product v w)
      / (sqrt (of_int (sum_squares v)) * sqrt (of_int (sum_squares w)))"
    by (rule divide_nonneg_nonneg)
  then show ?thesis by (intro mult_nonneg_nonneg) simp_all
qed

lemma magnitude_close: "close_to 2 (magnitude v) (sqrt (of_int (sum_squares v)))"
proof -
  define S :: real where "S = of_int (sum_squares v)"
  have S: "0 \<le> S" unfolding S_def using sum_squares_nonneg by simp
  have "close_to (Suc 0) (fl S) S" by (rule close_to_fl [OF S close_to_refl])
  then have "close_to (Suc 0) (sqrt (fl S)) (sqrt S)" by (rule close_to_sqrt [OF S])
  then have "close_to (Suc (Suc 0)) (fl (sqrt (fl S))) (sqrt S)"
    by (intro close_to_fl) (simp_all add: S)
  then show ?thesis unfolding magnitude_sum_squares S_def by (simp add: numeral_2_eq_2)
qed

lemma similarity_close:
  assumes d: "0 \<le> dot_product v w" and sv: "0 < sum_squares v" and sw: "0 < sum_squares w"
  shows "close_to 8 (similarity v w)
     (of_int (dot_product v w) / (sqrt (of_int (sum_squares v)) * sqrt (of_int (sum_squares w)))
        * 100)"
proof -
  define D :: real where "D = of_int (dot_product v w)"
  define A :: real where "A = sqrt (of_int (sum_squares v))"
  define B :: real where "B = sqrt (of_int (sum_squares w))"
  have D: "0 \<le> D" unfolding D_def using d by simp
  have A: "0 < A" unfolding A_def using sv by simp
  have B: "0 < B" unfolding B_def using sw by simp
  have AB: "0 < A * B" using A B by (rule mult_pos_pos)
  have mv: "close_to 2 (magnitude v) A" unfolding A_def by (rule magnitude_close)
  have mw: "close_to 2 (magnitude w) B" unfolding B_def by (rule magnitude_close)
  have "close_to (2 + 2) (magnitude v * magnitude w) (A * B)"
    using A B by (intro close_to_mult [OF _ _ mv mw]) simp_all
  then have "close_to (Suc (2 + 2)) (fl (magnitude v * magnitude w)) (A * B)"
    using AB by (intro close_to_fl) simp_all
  then have p: "close_to 5 (fl (magnitude v * magnitude w)) (A * B)" by simp
  have "close_to (Suc 0) (fl D) D" by (rule close_to_fl [OF D close_to_refl])
  then have n: "close_to 1 (fl D) D" by simp
  have "close_to (1 + 5) (fl D / fl (magnitude v * magnitude w)) (D / (A * B))"
    by (rule close_to_divide [OF D AB n p])
  moreover have q: "0 \<le> D / (A * B)" using D AB by simp
  ultimately have "close_to (Suc (1 + 5)) (fl (fl D / fl (magnitude v * magnitude w))) (D / (A * B))"
    by (intro close_to_fl)
  then have "close_to (Suc (1 + 5)) (fl (fl D / fl (magnitude v * magnitude w)) * 100)
      (D / (A * B) * 100)"
    by (intro close_to_scale) simp_all
  moreover have "0 \<le> D / (A * B) * 100" using q by (intro mult_nonneg_nonneg) simp_all
  ultimately have "close_to (Suc (Suc (1 + 5)))
      (fl (fl (fl D / fl (magnitude v * magnitude w)) * 100)) (D / (A * B) * 100)"
    by (intro close_to_fl)
  then show ?thesis unfolding similarity_def D_def A_def B_def by simp
qed

lemma sum_squares_index:
  assumes "length v = 24"
  shows "sum_squares v = (\<Sum>i<24. v ! i * v ! i)"
proof -
  have "sum_squares v = (\<Sum>i = 0..<length (map (\<lambda>x. x * x) v). map (\<lambda>x. x * x) v ! i)"
    unfolding sum_squares_def by (rule sum_list_sum_nth)
  also have "\<dots> = (\<Sum>i = 0..<24. v ! i * v ! i)"
    using assms by (intro sum.cong) simp_all
  finally show ?thesis by (simp only: atLeast0LessThan)
qed

lemma dot_product_index:
  assumes "length v = 24" and "length w = 24"
  shows "dot_product v w = (\<Sum>i<24. v ! i * w ! i)"
proof -
  let ?z = "map (\<lambda>(a, b). a * b) (zip v w)"
  have "dot_product v w = (\<Sum>i = 0..<length ?z. ?z ! i)"
    unfolding dot_product_def by (rule sum_list_sum_nth)
  also have "\<dots> = (\<Sum>i = 0..<24. v ! i * w ! i)"
    using assms by (intro sum.cong) simp_all
  finally show ?thesis by (simp only: atLeast0LessThan)
qed

lemma cosine_similarity_lists:
  assumes "length v = 24" and "length w = 24"
  shows "cosine_similarity v w =
     of_int (dot_product v w) / (sqrt (of_int (sum_squares v)) * sqrt (of_int (sum_squares w))) * 100"
  unfolding cosine_similarity_def
  by (simp only: sum_squares_index [OF assms(1)] sum_squares_index [OF assms(2)]
      dot_product_index [OF assms])

text \<open>Rounding to one decimal place keeps a similarity between 0 and 100.\<close>

lemma fl_100: "fl 100 = 100"
  by code_simp

lemma round1_range:
  assumes x: "0 \<le> x" and h: "x * (1 - 1 / 10 ^ 15) \<le> 100"
  shows "0 \<le> round1 x" and "round1 x \<le> 100"
proof -
  define k where "k = round_half_even (x * 10)"
  have r: "round1 x = fl (of_int k / 10)" by (simp add: round1_def k_def)
  from x have "0 \<le> x * 10" by simp
  then have k0: "0 \<le> k" unfolding k_def by (rule round_half_even_nonneg)
  then have "(0::real) \<le> of_int k / 10" by simp
  then show "0 \<le> round1 x" unfolding r by (rule fl_nonneg)
  from h have "x * 999999999999999 \<le> 100000000000000000" by simp
  then have "x * 10 < of_int 1000 + 1 / 2" by simp
  then have k1: "k \<le> 1000" unfolding k_def by (rule round_half_even_le)
  show "round1 x \<le> 100"
  proof (cases "k = 1000")
    case True
    then show ?thesis unfolding r by (simp add: fl_100)
  next
    case False
    with k1 have "k \<le> 999" by simp
    then have "(of_int k :: real) \<le> of_int 999" by (simp only: of_int_le_iff)
    then have y: "(of_int k :: real) / 10 \<le> 999 / 10" by simp
    have y0: "(0::real) \<le> of_int k / 10" using k0 by simp
    have "fl (of_int k / 10) \<le> (of_int k / 10) * (1 + 1 / 2 ^ 53)" by (rule fl_upper [OF y0])
    also have "\<dots> \<le> (999 / 10) * (1 + 1 / 2 ^ 53)" using y by (rule mult_right_mono) simp
    also have "\<dots> \<le> 100" by simp
    finally show ?thesis unfolding r .
  qed
qed

lemma round1_100:
  assumes lo: "100 * (1 - 1 / 10 ^ 15) \<le> x" and hi: "x * (1 - 1 / 10 ^ 15) \<le> 100"
  shows "round1 x = 100"
proof -
  from lo have l: "99999999999999900 / 1000000000000000 \<le> x" by simp
  from hi have h: "x * 999999999999999 \<le> 100000000000000000" by simp
  from l h have "\<bar>x * 10 - 1000\<bar> < 1 / 2" by linarith
  then have "\<bar>x * 10 - of_int 1000\<bar> < 1 / 2" by simp
  then have "round_half_even (x * 10) = 1000" by (rule round_half_even_eqI)
  then show ?thesis by (simp add: round1_def fl_100)
qed

lemma rival_step_skip:
  "\<not> is_candidate uname c \<Longrightarrow> rival_step uname v st c = st"
  by (auto simp: rival_step_def is_candidate_def Let_def magnitude_zero_iff list_ex_iff)

lemma rival_step_candidate:
  "is_candidate uname c \<Longrightarrow>
     rival_step uname v st c = (if score v c > snd st then (Some (rival_info v c), score v c) else st)"
  by (auto simp: rival_step_def is_candidate_def Let_def score_def rival_info_def
      magnitude_zero_iff list_ex_iff)

lemma rival_loop_filter:
  "foldl (rival_step uname v) st pool = foldl (rival_step uname v) st (filter (is_candidate uname) pool)"
  by (induction pool arbitrary: st) (simp_all add: rival_step_skip)

lemma rival_loop_invariant:
  assumes "\<forall>c \<in> set xs. is_candidate uname c"
    and "foldl (rival_step uname v) (b, s) xs = (b', s')"
  shows "s \<le> s' \<and> (\<forall>c \<in> set xs. score v c \<le> s') \<and> (s' = s \<longrightarrow> b' = b) \<and>
     (s < s' \<longrightarrow> (\<exists>i<length xs. b' = Some (rival_info v (xs ! i)) \<and> s' = score v (xs ! i) \<and>
        (\<forall>j<i. score v (xs ! j) < s')))"
  using assms
proof (induction xs arbitrary: b' s' rule: rev_induct)
  case Nil
  then show ?case by simp
next
  case (snoc x xs)
  obtain b0 s0 where f: "foldl (rival_step uname v) (b, s) xs = (b0, s0)"
    by (cases "foldl (rival_step uname v) (b, s) xs") auto
  from snoc.prems(1) have cx: "is_candidate uname x" and cs: "\<forall>c \<in> set xs. is_candidate uname c"
    by simp_all
  note IH = snoc.IH [OF cs f]
  from snoc.prems(2) f have step: "rival_step uname v (b0, s0) x = (b', s')" by simp
  show ?case
  proof (cases "score v x > s0")
    case True
    with step cx have r: "b' = Some (rival_info v x)" "s' = score v x"
      by (simp_all add: rival_step_candidate)
    have "\<forall>j<length xs. score v ((xs @ [x]) ! j) < s'"
    proof (intro allI impI)
      fix j assume j: "j < length xs"
      then have "xs ! j \<in> set xs" by simp
      with IH have "score v (xs ! j) \<le> s0" by blast
      with True r j show "score v ((xs @ [x]) ! j) < s'" by (simp add: nth_append)
    qed
    with r have ex: "\<exists>i<length (xs @ [x]). b' = Some (rival_info v ((xs @ [x]) ! i)) \<and>
        s' = score v ((xs @ [x]) ! i) \<and> (\<forall>j<i. score v ((xs @ [x]) ! j) < s')"
      by (intro exI [of _ "length xs"]) simp
    from IH True r have a: "s \<le> s'" "s' \<noteq> s" by auto
    from IH True r have b: "\<forall>c \<in> set (xs @ [x]). score v c \<le> s'" by fastforce
    from a b ex show ?thesis by blast
  next
    case False
    with step cx have r: "b' = b0" "s' = s0"
      by (simp_all add: rival_step_candidate)
    from IH False r have b: "\<forall>c \<in> set (xs @ [x]). score v c \<le> s'" by auto
    have ex: "s < s' \<longrightarrow> (\<exists>i<length (xs @ [x]). b' = Some (rival_info v ((xs @ [x]) ! i)) \<and>
        s' = score v ((xs @ [x]) ! i) \<and> (\<forall>j<i. score v ((xs @ [x]) ! j) < s'))"
    proof
      assume "s < s'"
      with IH r obtain i where i: "i < length xs" "b' = Some (rival_info v (xs ! i))"
        "s' = score v (xs ! i)" "\<forall>j<i. score v (xs ! j) < s'" by blast
      then have "\<forall>j<i. score v ((xs @ [x]) ! j) < s'" by (simp add: nth_append)
      with i show "\<exists>i<length (xs @ [x]). b' = Some (rival_info v ((xs @ [x]) ! i)) \<and>
        s' = score v ((xs @ [x]) ! i) \<and> (\<forall>j<i. score v ((xs @ [x]) ! j) < s')"
        by (intro exI [of _ i]) (simp add: nth_append)
    qed
    from IH r have "s \<le> s'" "s' = s \<longrightarrow> b' = b" by auto
    with b ex show ?thesis by blast
  qed
qed

lemma length_hours_vector: "length (hours_vector hs) = 24"
  by (simp add: hours_vector_def)

lemma hours_vector_nonneg:
  assumes "\<forall>p \<in> set hs. 0 \<le> snd p"
  shows "\<forall>x \<in> set (hours_vector hs). 0 \<le> x"
proof
  fix x assume "x \<in> set (hours_vector hs)"
  then obtain i where x: "x = (case map_of hs i of Some c \<Rightarrow> c | None \<Rightarrow> 0)"
    by (auto simp: hours_vector_def)
  show "0 \<le> x"
  proof (cases "map_of hs i")
    case None
    with x show ?thesis by simp
  next
    case (Some c)
    then have "(i, c) \<in> set hs" by (rule map_of_SomeD)
    with assms have "0 \<le> c" by force
    with x Some show ?thesis by simp
  qed
qed

lemma rival_pool_nonneg:
  assumes "c \<in> set (rival_pool matches db)"
  shows "\<forall>p \<in> set (c_hours c). 0 \<le> snd p"
proof -
  define per_hour where "per_hour = map (\<lambda>((u, h), ms). (u, h, display_name (last ms), int (length ms)))
      (group_by (\<lambda>m. (username m, hour m)) (filter matches db))"
  have ph: "\<forall>e \<in> set per_hour. 0 \<le> snd (snd (snd e))"
    by (auto simp: per_hour_def)
  from assms obtain u es where "(u, es) \<in> set (group_by fst per_hour)"
    and c: "c_hours c = map (\<lambda>(u', h, dn, c). (h, c)) es"
    unfolding rival_pool_def Let_def per_hour_def [symmetric]
    by (auto simp: set_sort_desc dest!: in_set_takeD)
  then have "set es \<subseteq> set per_hour" by (auto simp: group_by_mem)
  with ph show ?thesis unfolding c by force
qed

lemma rival_pool_length: "length (rival_pool matches db) \<le> 1000"
  by (simp add: rival_pool_def Let_def MAX_USERS_QUERY_def)

lemma get_rival_loop:
  "get_rival db now uname hp period =
     (if rival_candidates db now uname period = [] \<or> magnitude (map count_of hp) = 0 then None
      else fst (foldl (rival_step uname (map count_of hp)) (None, - 1)
                  (rival_candidates db now uname period)))"
proof (cases "rival_pool (in_window (get_date_filter now period)) db = []")
  case True
  then show ?thesis by (simp add: get_rival_def rival_candidates_def)
next
  case False
  show ?thesis
  proof (cases "rival_candidates db now uname period = []")
    case True
    with False have "foldl (rival_step uname (map count_of hp)) (None, - 1)
        (rival_pool (in_window (get_date_filter now period)) db) = (None, - 1)"
      unfolding rival_candidates_def by (subst rival_loop_filter) simp
    with False True show ?thesis by (simp add: get_rival_def Let_def)
  next
    case c: False
    from False c show ?thesis
      unfolding get_rival_def Let_def rival_candidates_def
      by (simp add: rival_loop_filter [symmetric])
  qed
qed

lemma candidate_vector:
  assumes c: "c \<in> set (rival_candidates db now uname period)"
  shows "length (hours_vector (c_hours c)) = 24"
    and "\<forall>x \<in> set (hours_vector (c_hours c)). 0 \<le> x"
    and "\<exists>x \<in> set (hours_vector (c_hours c)). x \<noteq> 0"
proof -
  show "length (hours_vector (c_hours c)) = 24" by (rule length_hours_vector)
  from c have "c \<in> set (rival_pool (in_window (get_date_filter now period)) db)"
    by (simp add: rival_candidates_def)
  then show "\<forall>x \<in> set (hours_vector (c_hours c)). 0 \<le> x"
    by (intro hours_vector_nonneg rival_pool_nonneg)
  from c show "\<exists>x \<in> set (hours_vector (c_hours c)). x \<noteq> 0"
    by (simp add: rival_candidates_def is_candidate_def list_ex_iff)
qed

lemma score_facts:
  assumes len: "length hp = 24" and nn: "\<forall>h \<in> set hp. 0 \<le> count_of h"
    and nz: "\<exists>h \<in> set hp. count_of h \<noteq> 0"
    and c: "c \<in> set (rival_candidates db now uname period)"
  shows "0 \<le> cosine_similarity (map count_of hp) (hours_vector (c_hours c))"
    and "cosine_similarity (map count_of hp) (hours_vector (c_hours c)) \<le> 100"
    and "cosine_similarity (map count_of hp) (hours_vector (c_hours c)) * (1 - 1 / 10 ^ 15)
           \<le> score (map count_of hp) c"
    and "score (map count_of hp) c * (1 - 1 / 10 ^ 15)
           \<le> cosine_similarity (map count_of hp) (hours_vector (c_hours c))"
    and "0 \<le> score (map count_of hp) c"
    and "0 \<le> round1 (score (map count_of hp) c)"
    and "round1 (score (map count_of hp) c) \<le> 100"
proof -
  let ?v = "map count_of hp"
  let ?w = "hours_vector (c_hours c)"
  note w = candidate_vector [OF c]
  have lv: "length ?v = 24" using len by simp
  have vn: "\<forall>x \<in> set ?v. 0 \<le> x" using nn by simp
  have vz: "\<exists>x \<in> set ?v. x \<noteq> 0" using nz by simp
  have d: "0 \<le> dot_product ?v ?w" by (rule dot_product_nonneg [OF vn w(2)])
  have cs: "cosine_similarity ?v ?w =
      of_int (dot_product ?v ?w) / (sqrt (of_int (sum_squares ?v)) * sqrt (of_int (sum_squares ?w))) * 100"
    by (rule cosine_similarity_lists [OF lv w(1)])
  show c0: "0 \<le> cosine_similarity ?v ?w" unfolding cs by (rule exact_cosine_nonneg [OF d])
  show c1: "cosine_similarity ?v ?w \<le> 100"
    unfolding cs by (rule exact_cosine_le_100) (simp only: lv w(1))
  have cl: "close_to 8 (score ?v c) (cosine_similarity ?v ?w)"
    unfolding cs score_def
    by (rule similarity_close [OF d sum_squares_pos [OF vz] sum_squares_pos [OF w(3)]])
  show "cosine_similarity ?v ?w * (1 - 1 / 10 ^ 15) \<le> score ?v c"
    by (rule close_to_8(1) [OF c0 cl])
  show s1: "score ?v c * (1 - 1 / 10 ^ 15) \<le> cosine_similarity ?v ?w"
    by (rule close_to_8(2) [OF c0 cl])
  show s0: "0 \<le> score ?v c" by (rule close_to_nonneg [OF c0 cl])
  from s1 c1 have h: "score ?v c * (1 - 1 / 10 ^ 15) \<le> 100" by linarith
  show "0 \<le> round1 (score ?v c)" by (rule round1_range(1) [OF s0 h])
  show "round1 (score ?v c) \<le> 100" by (rule round1_range(2) [OF s0 h])
qed

lemma identical_histograms:
  assumes len: "length v = 24" and nz: "\<exists>x \<in> set v. x \<noteq> 0"
  shows "cosine_similarity v v = 100" and "round1 (similarity v v) = 100"
proof -
  define S :: real where "S = of_int (sum_squares v)"
  have S: "0 < S" unfolding S_def using sum_squares_pos [OF nz] by simp
  have "sqrt S * sqrt S = S" using S by simp
  then have e: "S / (sqrt S * sqrt S) * 100 = 100" using S by simp
  have cs: "cosine_similarity v v = S / (sqrt S * sqrt S) * 100"
    unfolding S_def by (simp only: cosine_similarity_lists [OF len len] dot_product_self)
  show "cosine_similarity v v = 100" unfolding cs by (rule e)
  have d: "0 \<le> dot_product v v" unfolding dot_product_self by (rule sum_squares_nonneg)
  have "close_to 8 (similarity v v)
      (of_int (dot_product v v) / (sqrt (of_int (sum_squares v)) * sqrt (of_int (sum_squares v))) * 100)"
    by (rule similarity_close [OF d sum_squares_pos [OF nz] sum_squares_pos [OF nz]])
  then have cl: "close_to 8 (similarity v v) 100"
    unfolding dot_product_self S_def [symmetric] e .
  have h: "(0::real) \<le> 100" by simp
  show "round1 (similarity v v) = 100"
    by (rule round1_100 [OF close_to_8(1) [OF h cl] close_to_8(2) [OF h cl]])
qed

lemma rival_pool_sorted:
  "sorted (map (\<lambda>c. - c_total c) (rival_pool matches db))"
proof -
  have "sorted (map (\<lambda>c. - c_total c) (take n (sort_desc c_total xs)))" for n and xs :: "candidate list"
    unfolding take_map [symmetric] by (rule sorted_wrt_take) (rule sort_desc_sorted)
  then show ?thesis unfolding rival_pool_def Let_def .
qed

lemma get_rival_selects:
  assumes nn: "\<forall>h \<in> set hp. 0 \<le> count_of h"
    and nz: "\<exists>h \<in> set hp. count_of h \<noteq> 0"
    and ne: "rival_candidates db now uname period \<noteq> []"
  shows "\<exists>i<length (rival_candidates db now uname period).
           get_rival db now uname hp period =
             Some (rival_info (map count_of hp) (rival_candidates db now uname period ! i)) \<and>
           (\<forall>j<length (rival_candidates db now uname period).
              score (map count_of hp) (rival_candidates db now uname period ! j)
                \<le> score (map count_of hp) (rival_candidates db now uname period ! i)) \<and>
           (\<forall>j<i. score (map count_of hp) (rival_candidates db now uname period ! j)
                < score (map count_of hp) (rival_candidates db now uname period ! i))"
proof -
  let ?v = "map count_of hp"
  let ?cs = "rival_candidates db now uname period"
  from nz have mag: "magnitude ?v \<noteq> 0" by (simp add: magnitude_zero_iff)
  obtain b' s' where f: "foldl (rival_step uname ?v) (None, - 1) ?cs = (b', s')"
    by (cases "foldl (rival_step uname ?v) (None, - 1) ?cs") auto
  have cand: "\<forall>c \<in> set ?cs. is_candidate uname c"
    by (simp add: rival_candidates_def)
  note inv = rival_loop_invariant [OF cand f]
  from ne obtain c where c: "c \<in> set ?cs" by (cases ?cs) auto
  from nn have "\<forall>x \<in> set ?v. 0 \<le> x" by simp
  then have "0 \<le> score ?v c"
    unfolding score_def using candidate_vector(2) [OF c] by (rule similarity_nonneg)
  moreover from inv c have "score ?v c \<le> s'" by blast
  ultimately have "- 1 < s'" by linarith
  with inv obtain i where i: "i < length ?cs" "b' = Some (rival_info ?v (?cs ! i))"
    "s' = score ?v (?cs ! i)" "\<forall>j<i. score ?v (?cs ! j) < s'" by blast
  from inv have "\<forall>j<length ?cs. score ?v (?cs ! j) \<le> s'" by simp
  moreover from mag ne f i have "get_rival db now uname hp period = Some (rival_info ?v (?cs ! i))"
    by (simp add: get_rival_loop)
  ultimately show ?thesis using i by blast
qed

text \<open>
  C7 (as the code has it).  The pool holds the at most 1000 most active actors of the
  window, in the order of their totals, greatest first; the candidates are its documents
  other than the subject's whose histogram is not all zero, in that order.  \<^verbatim>\<open>get_rival\<close>
  returns nothing when the subject's histogram is all zero, and nothing when there is no
  candidate.  Otherwise, for a histogram of 24 non-negative bins, it returns the first
  candidate in the order of the pool whose computed similarity is the greatest.  The
  computed similarity \<open>score\<close> is the floating-point evaluation of
  \<open>dot(subject, candidate) / (||subject|| * ||candidate||) * 100\<close>; it agrees with the exact
  cosine similarity, which lies between 0 and 100, up to the fraction \<open>1 / 10 ^ 15\<close>, so that
  it can exceed 100 by a rounding error, and candidates whose exact similarities are equal
  can be ordered by their rounding errors.  The score returned is the computed similarity
  rounded to one decimal place: the floating-point number nearest to \<open>k / 10\<close>, where \<open>k\<close> is
  the integer nearest to ten times the computed similarity, the even one at a tie; it
  lies between 0 and 100, and is 100 for a candidate whose histogram equals the subject's.
\<close>

theorem get_rival_spec:
  "((\<forall>h \<in> set hp. count_of h = 0) \<longrightarrow> get_rival db now uname hp period = None) \<and>
   (rival_candidates db now uname period = [] \<longrightarrow> get_rival db now uname hp period = None) \<and>
   length (rival_pool (in_window (get_date_filter now period)) db) \<le> 1000 \<and>
   sorted (map (\<lambda>c. - c_total c) (rival_pool (in_window (get_date_filter now period)) db)) \<and>
   sorted (map (\<lambda>c. - c_total c) (rival_candidates db now uname period)) \<and>
   (length hp = 24 \<and> (\<forall>h \<in> set hp. 0 \<le> count_of h) \<and> (\<exists>h \<in> set hp. count_of h \<noteq> 0) \<and>
    rival_candidates db now uname period \<noteq> [] \<longrightarrow>
      (\<exists>i<length (rival_candidates db now uname period).
         get_rival db now uname hp period =
           Some (rival_info (map count_of hp) (rival_candidates db now uname period ! i)) \<and>
         (\<forall>j<length (rival_candidates db now uname period).
            score (map count_of hp) (rival_candidates db now uname period ! j)
              \<le> score (map count_of hp) (rival_candidates db now uname period ! i)) \<and>
         (\<forall>j<i. score (map count_of hp) (rival_candidates db now uname period ! j)
              < score (map count_of hp) (rival_candidates db now uname period ! i)) \<and>
         0 \<le> similarity_score (rival_info (map count_of hp) (rival_candidates db now uname period ! i)) \<and>
         similarity_score (rival_info (map count_of hp) (rival_candidates db now uname period ! i))
           \<le> 100)) \<and>
   (\<forall>c. rv_username (rival_info (map count_of hp) c) = c_id c \<and>
        rv_display_name (rival_info (map count_of hp) c) = c_display_name c \<and>
        (\<exists>k. similarity_score (rival_info (map count_of hp) c) = fl (of_int k / 10) \<and>
             \<bar>score (map count_of hp) c * 10 - of_int k\<bar> \<le> 1 / 2 \<and>
             (\<bar>score (map count_of hp) c * 10 - of_int k\<bar> = 1 / 2 \<longrightarrow> even k))) \<and>
   (\<forall>c \<in> set (rival_candidates db now uname period).
      length hp = 24 \<and> (\<forall>h \<in> set hp. 0 \<le> count_of h) \<and> (\<exists>h \<in> set hp. count_of h \<noteq> 0) \<longrightarrow>
        0 \<le> cosine_similarity (map count_of hp) (hours_vector (c_hours c)) \<and>
        cosine_similarity (map count_of hp) (hours_vector (c_hours c)) \<le> 100 \<and>
        cosine_similarity (map count_of hp) (hours_vector (c_hours c)) * (1 - 1 / 10 ^ 15)
          \<le> score (map count_of hp) c \<and>
        score (map count_of hp) c * (1 - 1 / 10 ^ 15)
          \<le> cosine_similarity (map count_of hp) (hours_vector (c_hours c))) \<and>
   (\<forall>c. length hp = 24 \<and> (\<exists>h \<in> set hp. count_of h \<noteq> 0) \<and>
        hours_vector (c_hours c) = map count_of hp \<longrightarrow>
          cosine_similarity (map count_of hp) (hours_vector (c_hours c)) = 100 \<and>
          similarity_score (rival_info (map count_of hp) c) = 100)"
proof (intro conjI allI ballI impI)
  let ?v = "map count_of hp"
  let ?cs = "rival_candidates db now uname period"
  show "get_rival db now uname hp period = None" if "\<forall>h \<in> set hp. count_of h = 0"
  proof -
    from that have "magnitude ?v = 0" by (simp add: magnitude_zero_iff)
    then show ?thesis by (simp add: get_rival_loop)
  qed
  show "get_rival db now uname hp period = None" if "?cs = []"
    using that by (simp add: get_rival_loop)
  show "length (rival_pool (in_window (get_date_filter now period)) db) \<le> 1000"
    by (rule rival_pool_length)
  show "sorted (map (\<lambda>c. - c_total c) (rival_pool (in_window (get_date_filter now period)) db))"
    by (rule rival_pool_sorted)
  show "sorted (map (\<lambda>c. - c_total c) ?cs)"
    unfolding rival_candidates_def by (rule sorted_filter) (rule rival_pool_sorted)
  show "\<exists>i<length ?cs. get_rival db now uname hp period = Some (rival_info ?v (?cs ! i)) \<and>
         (\<forall>j<length ?cs. score ?v (?cs ! j) \<le> score ?v (?cs ! i)) \<and>
         (\<forall>j<i. score ?v (?cs ! j) < score ?v (?cs ! i)) \<and>
         0 \<le> similarity_score (rival_info ?v (?cs ! i)) \<and>
         similarity_score (rival_info ?v (?cs ! i)) \<le> 100"
    if h: "length hp = 24 \<and> (\<forall>h \<in> set hp. 0 \<le> count_of h) \<and> (\<exists>h \<in> set hp. count_of h \<noteq> 0) \<and>
      ?cs \<noteq> []"
  proof -
    from h have len: "length hp = 24" and nn: "\<forall>h \<in> set hp. 0 \<le> count_of h"
      and nz: "\<exists>h \<in> set hp. count_of h \<noteq> 0" and ne: "?cs \<noteq> []" by simp_all
    from get_rival_selects [OF nn nz ne] obtain i where i: "i < length ?cs"
      "get_rival db now uname hp period = Some (rival_info ?v (?cs ! i))"
      "\<forall>j<length ?cs. score ?v (?cs ! j) \<le> score ?v (?cs ! i)"
      "\<forall>j<i. score ?v (?cs ! j) < score ?v (?cs ! i)" by blast
    from i(1) have m: "?cs ! i \<in> set ?cs" by simp
    from score_facts(6,7) [OF len nn nz m]
    have "0 \<le> similarity_score (rival_info ?v (?cs ! i))"
      "similarity_score (rival_info ?v (?cs ! i)) \<le> 100"
      by (simp_all add: rival_info_def)
    with i show ?thesis by blast
  qed
next
  fix c
  show "rv_username (rival_info (map count_of hp) c) = c_id c" by (simp add: rival_info_def)
  show "rv_display_name (rival_info (map count_of hp) c) = c_display_name c"
    by (simp add: rival_info_def)
  from round1_spec [of "score (map count_of hp) c"]
  show "\<exists>k. similarity_score (rival_info (map count_of hp) c) = fl (of_int k / 10) \<and>
             \<bar>score (map count_of hp) c * 10 - of_int k\<bar> \<le> 1 / 2 \<and>
             (\<bar>score (map count_of hp) c * 10 - of_int k\<bar> = 1 / 2 \<longrightarrow> even k)"
    by (simp add: rival_info_def)
next
  fix c
  assume c: "c \<in> set (rival_candidates db now uname period)"
    and h: "length hp = 24 \<and> (\<forall>h \<in> set hp. 0 \<le> count_of h) \<and> (\<exists>h \<in> set hp. count_of h \<noteq> 0)"
  from h have len: "length hp = 24" and nn: "\<forall>h \<in> set hp. 0 \<le> count_of h"
    and nz: "\<exists>h \<in> set hp. count_of h \<noteq> 0" by simp_all
  note f = score_facts [OF len nn nz c]
  show "0 \<le> cosine_similarity (map count_of hp) (hours_vector (c_hours c))" by (rule f(1))
  show "cosine_similarity (map count_of hp) (hours_vector (c_hours c)) \<le> 100" by (rule f(2))
  show "cosine_similarity (map count_of hp) (hours_vector (c_hours c)) * (1 - 1 / 10 ^ 15)
          \<le> score (map count_of hp) c" by (rule f(3))
  show "score (map count_of hp) c * (1 - 1 / 10 ^ 15)
          \<le> cosine_similarity (map count_of hp) (hours_vector (c_hours c))" by (rule f(4))
next
  fix c :: candidate
  assume h: "length hp = 24 \<and> (\<exists>h \<in> set hp. count_of h \<noteq> 0) \<and>
        hours_vector (c_hours c) = map count_of hp"
  then have len: "length (map count_of hp) = 24" and nz: "\<exists>x \<in> set (map count_of hp). x \<noteq> 0"
    and e: "hours_vector (c_hours c) = map count_of hp" by simp_all
  show "cosine_similarity (map count_of hp) (hours_vector (c_hours c)) = 100"
    unfolding e by (rule identical_histograms(1) [OF len nz])
  show "similarity_score (rival_info (map count_of hp) c) = 100"
    using identical_histograms(2) [OF len nz] by (simp add: rival_info_def score_def e)
qed

theorem get_rival_spec_witness:
  "get_rival twins 10 ''Ana'' (hourly_histogram (hourly_counts (matched twins 10 ''Ana'' ''all''))) ''all''
     = Some \<lparr>rv_username = ''bob'', rv_display_name = ''bob'', similarity_score = 100\<rparr> \<and>
   get_rival twins 10 ''Ana'' (hourly_histogram []) ''all'' = None"
proof -
  define hp where "hp = hourly_histogram (hourly_counts (matched twins 10 ''Ana'' ''all''))"
  define bob where "bob = \<lparr>c_id = ''bob'', c_display_name = ''bob'',
      c_hours = [(3, 1), (4, 1)], c_total = 2\<rparr>"
  have len: "length hp = 24" unfolding hp_def by (rule length_hourly_histogram)
  have v: "map count_of hp = hours_vector [(3, 1), (4, 1)]"
    unfolding hp_def by code_simp
  have nn: "\<forall>h \<in> set hp. 0 \<le> count_of h"
    unfolding hp_def by code_simp
  have nz: "\<exists>h \<in> set hp. count_of h \<noteq> 0"
    unfolding hp_def by code_simp
  have cs: "rival_candidates twins 10 ''Ana'' ''all'' = [bob]"
    unfolding bob_def by code_simp
  note spec = get_rival_spec [of hp twins 10 "''Ana''" "''all''"]
  from spec len nn nz cs
  have r: "get_rival twins 10 ''Ana'' hp ''all'' = Some (rival_info (map count_of hp) bob)"
    by auto
  have "hours_vector (c_hours bob) = map count_of hp" unfolding v by (simp add: bob_def)
  with spec len nz have "similarity_score (rival_info (map count_of hp) bob) = 100" by blast
  then have "rival_info (map count_of hp) bob =
      \<lparr>rv_username = ''bob'', rv_display_name = ''bob'', similarity_score = 100\<rparr>"
    by (simp add: rival_info_def bob_def)
  with r have 1: "get_rival twins 10 ''Ana'' hp ''all'' =
      Some \<lparr>rv_username = ''bob'', rv_display_name = ''bob'', similarity_score = 100\<rparr>"
    by simp
  have z: "\<forall>h \<in> set (hourly_histogram []). count_of h = 0" by code_simp
  from get_rival_spec [of "hourly_histogram []" twins 10 "''Ana''" "''all''"] z
  have 2: "get_rival twins 10 ''Ana'' (hourly_histogram []) ''all'' = None" by blast
  from 1 2 show ?thesis unfolding hp_def by blast
qed

text \<open>
  The claim as the specification words it fails where rounding errors decide.  In the
  store \<open>rivals\<close> the histograms of \<open>big\<close> and of \<open>twin\<close> have the direction of the subject's:
  the exact cosine similarity of both is 100, and \<open>big\<close> is first in the pool.  The
  computed similarity of \<open>big\<close> is 100 and that of \<open>twin\<close> is 100.00000000000003, which is
  greater than 100: \<^verbatim>\<open>get_rival\<close> returns \<open>twin\<close>.
\<close>

lemma sqrt_13: "fl (sqrt 13) = 8118979690322419 / 2 ^ 51"
proof -
  have "fl (sqrt 13) = of_int 8118979690322419 * 2 powi (1 - 52)"
  proof (rule fl_eqI)
    show "(2::int) ^ 52 < 8118979690322419" by simp
    show "(8118979690322419::int) < 2 ^ 53" by simp
    have "((of_int 8118979690322419 - 1 / 2) * 2 powi (1 - 52))\<^sup>2 < (13::real)"
      by (simp add: power_int_minus_divide power2_eq_square)
    then show "(of_int 8118979690322419 - 1 / 2) * 2 powi (1 - 52) < sqrt 13"
      by (rule real_less_rsqrt)
    have "(13::real) < ((of_int 8118979690322419 + 1 / 2) * 2 powi (1 - 52))\<^sup>2"
      by (simp add: power_int_minus_divide power2_eq_square)
    then show "sqrt 13 < (of_int 8118979690322419 + 1 / 2) * 2 powi (1 - 52)"
      by (intro real_less_lsqrt) simp_all
  qed
  then show ?thesis by (simp add: power_int_minus_divide)
qed

lemma sqrt_117: "fl (sqrt 117) = 6089234767741815 / 2 ^ 49"
proof -
  have "fl (sqrt 117) = of_int 6089234767741815 * 2 powi (3 - 52)"
  proof (rule fl_eqI)
    show "(2::int) ^ 52 < 6089234767741815" by simp
    show "(6089234767741815::int) < 2 ^ 53" by simp
    have "((of_int 6089234767741815 - 1 / 2) * 2 powi (3 - 52))\<^sup>2 < (117::real)"
      by (simp add: power_int_minus_divide power2_eq_square)
    then show "(of_int 6089234767741815 - 1 / 2) * 2 powi (3 - 52) < sqrt 117"
      by (rule real_less_rsqrt)
    have "(117::real) < ((of_int 6089234767741815 + 1 / 2) * 2 powi (3 - 52))\<^sup>2"
      by (simp add: power_int_minus_divide power2_eq_square)
    then show "sqrt 117 < (of_int 6089234767741815 + 1 / 2) * 2 powi (3 - 52)"
      by (intro real_less_lsqrt) simp_all
  qed
  then show ?thesis by (simp add: power_int_minus_divide)
qed

theorem get_rival_rounding_decides:
  "rival_candidates rivals 10 ''ana'' ''all'' =
     [\<lparr>c_id = ''big'', c_display_name = ''big'', c_hours = [(3, 6), (4, 9)], c_total = 15\<rparr>,
      \<lparr>c_id = ''twin'', c_display_name = ''twin'', c_hours = [(3, 2), (4, 3)], c_total = 5\<rparr>] \<and>
   map count_of (hourly_histogram (hourly_counts (matched rivals 10 ''ana'' ''all'')))
     = hours_vector [(3, 2), (4, 3)] \<and>
   cosine_similarity (hours_vector [(3, 2), (4, 3)]) (hours_vector [(3, 6), (4, 9)]) = 100 \<and>
   cosine_similarity (hours_vector [(3, 2), (4, 3)]) (hours_vector [(3, 2), (4, 3)]) = 100 \<and>
   similarity (hours_vector [(3, 2), (4, 3)]) (hours_vector [(3, 6), (4, 9)]) = 100 \<and>
   similarity (hours_vector [(3, 2), (4, 3)]) (hours_vector [(3, 2), (4, 3)]) = 100 + 1 / 2 ^ 45 \<and>
   get_rival rivals 10 ''ana'' (hourly_histogram (hourly_counts (matched rivals 10 ''ana'' ''all'')))
     ''all''
     = Some \<lparr>rv_username = ''twin'', rv_display_name = ''twin'', similarity_score = 100\<rparr>"
proof -
  define v where "v = hours_vector [(3, 2), (4, 3)]"
  define w where "w = hours_vector [(3, 6), (4, 9)]"
  define big where "big = \<lparr>c_id = ''big'', c_display_name = ''big'',
      c_hours = [(3, 6), (4, 9)], c_total = 15\<rparr>"
  define twin where "twin = \<lparr>c_id = ''twin'', c_display_name = ''twin'',
      c_hours = [(3, 2), (4, 3)], c_total = 5\<rparr>"
  have cs: "rival_candidates rivals 10 ''ana'' ''all'' = [big, twin]"
    unfolding big_def twin_def by code_simp
  have hp: "map count_of (hourly_histogram (hourly_counts (matched rivals 10 ''ana'' ''all''))) = v"
    unfolding v_def by code_simp
  have lv: "length v = 24" and lw: "length w = 24"
    unfolding v_def w_def by (rule length_hours_vector)+
  have sv: "sum_squares v = 13" and sw: "sum_squares w = 117"
    unfolding v_def w_def by code_simp+
  have dw: "dot_product v w = 39" and dv: "dot_product v v = 13"
    unfolding v_def w_def by code_simp+
  have m: "sqrt 13 * sqrt 117 = (39::real)"
  proof -
    have "sqrt 13 * sqrt 117 = sqrt (13 * 117)" by (rule real_sqrt_mult [symmetric])
    also have "(13 * 117 :: real) = 39\<^sup>2" by simp
    also have "sqrt (39\<^sup>2 :: real) = 39" by simp
    finally show ?thesis .
  qed
  have cw: "cosine_similarity v w = 100"
    unfolding cosine_similarity_lists [OF lv lw] sv sw dw by (simp add: m)
  have cv: "cosine_similarity v v = 100"
    unfolding cosine_similarity_lists [OF lv lv] sv dv by simp
  have f13: "fl 13 = 13" and f117: "fl 117 = 117" by code_simp+
  have mv: "magnitude v = 8118979690322419 / 2 ^ 51"
    unfolding magnitude_sum_squares sv by (simp add: f13 sqrt_13)
  have mw: "magnitude w = 6089234767741815 / 2 ^ 49"
    unfolding magnitude_sum_squares sw by (simp add: f117 sqrt_117)
  have "fl (fl (fl (of_int 39) / fl (8118979690322419 / 2 ^ 51 * (6089234767741815 / 2 ^ 49))) * 100)
      = 100"
    by code_simp
  then have simw: "similarity v w = 100" unfolding similarity_def mv mw dw .
  have "fl (fl (fl (of_int 13) / fl (8118979690322419 / 2 ^ 51 * (8118979690322419 / 2 ^ 51))) * 100)
      = 100 + 1 / 2 ^ 45"
    by code_simp
  then have simv: "similarity v v = 100 + 1 / 2 ^ 45" unfolding similarity_def mv dv .
  have sb: "score v big = 100" unfolding score_def big_def using simw by (simp add: w_def)
  have st: "score v twin = 100 + 1 / 2 ^ 45" unfolding score_def twin_def using simv by (simp add: v_def)
  have cb: "is_candidate ''ana'' big" and ct: "is_candidate ''ana'' twin"
    unfolding big_def twin_def by code_simp+
  have r: "round1 (100 + 1 / 2 ^ 45) = 100" by code_simp
  have ri: "rival_info v twin =
      \<lparr>rv_username = ''twin'', rv_display_name = ''twin'', similarity_score = 100\<rparr>"
    unfolding rival_info_def st r by (simp add: twin_def)
  have nz: "magnitude v \<noteq> 0" unfolding mv by simp
  have "foldl (rival_step ''ana'' v) (None, - 1) [big, twin] = (Some (rival_info v twin), 100 + 1 / 2 ^ 45)"
    by (simp add: rival_step_candidate [OF cb] rival_step_candidate [OF ct] sb st)
  then have g: "get_rival rivals 10 ''ana''
      (hourly_histogram (hourly_counts (matched rivals 10 ''ana'' ''all''))) ''all''
      = Some \<lparr>rv_username = ''twin'', rv_display_name = ''twin'', similarity_score = 100\<rparr>"
    unfolding get_rival_loop hp cs using nz by (simp add: ri)
  from cs hp cw cv simw simv g show ?thesis
    unfolding v_def w_def big_def twin_def by blast
qed

end
